theory Spec2Isabelle
  imports Main "HOL-Library.Finite_Map" "HOL-Library.Sublist"
begin

section \<open>crtmon: domain tracking (tracking.go) and notification batching (send.go)\<close>

text \<open>
  Conventions of the embedding.
  \<^item> A \<open>time.Time\<close> is an \<open>int\<close>: nanoseconds since the Unix epoch. A
    \<open>time.Duration\<close> is an \<open>int\<close> of nanoseconds. Go saturates a duration at about
    292 years; every comparison below is against 7 days or a caller-given age, far inside that
    range, so the unbounded difference decides the same way.
  \<^item> Every operation reads the clock once: the argument \<open>now\<close> stands for each
    \<open>time.Now()\<close> of one call.
  \<^item> \<open>t.Format("2006-01-02")\<close> is the calendar day of \<open>t\<close>; it is modelled by the day
    number \<open>t div day\<close> (the process-local zone is taken to be UTC). The empty string of
    \<open>LastHighHitDate\<close> is \<open>None\<close>.
  \<^item> Go's \<open>int\<close> counters are modelled by \<open>int\<close>: a 64-bit counter that is incremented
    once per call does not wrap in any run.
  \<^item> \<open>map[string]*DomainEntry\<close> is a finite map from keys to entries. Inside the tracker each
    key owns its entry object, so the methods of the tracker are modelled on values. The getters
    hand out struct copies to callers; for them the memory model of the last definitions
    section keeps the reference-typed fields as addresses.
  \<^item> \<open>os.WriteFile\<close> and \<open>os.Rename\<close> are taken to succeed (every caller discards the
    error of \<open>save\<close>); the file content is modelled by the table that was marshalled.
\<close>

subsection \<open>Time\<close>

type_synonym time = int
type_synonym date = int

definition hour :: int where
  "hour = 3600000000000"

definition day :: int where
  "day = 24 * hour"

definition sevenDays :: int where
  "sevenDays = 7 * 24 * hour"

text \<open>\<open>time.Time{}\<close>, the zero value: January 1 of year 1, 00:00 UTC.\<close>

definition zeroTime :: time where
  "zeroTime = - 62135596800 * 1000000000"

definition dateOf :: "time \<Rightarrow> date" where
  "dateOf t = t div day"

subsection \<open>Host names\<close>

text \<open>
  \<open>strings.ToLower\<close> on the bytes of an ASCII host name: \<open>A\<close>..\<open>Z\<close> are mapped to
  \<open>a\<close>..\<open>z\<close>, every other byte is kept.
\<close>

definition toLowerChar :: "char \<Rightarrow> char" where
  "toLowerChar c =
     (let n = (of_char c :: nat) in if 65 \<le> n \<and> n \<le> 90 then char_of (n + 32) else c)"

definition ToLower :: "string \<Rightarrow> string" where
  "ToLower s = map toLowerChar s"

text \<open>\<open>strings.TrimSuffix(s, ".")\<close> removes one trailing dot, if there is one.\<close>

definition TrimSuffixDot :: "string \<Rightarrow> string" where
  "TrimSuffixDot s = (if s \<noteq> [] \<and> last s = CHR ''.'' then butlast s else s)"

definition normalize :: "string \<Rightarrow> string" where
  "normalize domain = ToLower (TrimSuffixDot domain)"

text \<open>\<open>IsWildcardDomain\<close>: \<open>strings.HasPrefix(domain, "*.")\<close>.\<close>

definition IsWildcardDomain :: "string \<Rightarrow> bool" where
  "IsWildcardDomain domain = (take 2 domain = ''*.'')"

subsection \<open>DomainEntry and DomainTracker\<close>

text \<open>
  The struct \<open>DomainEntry\<close>. Its three reference-typed fields (the map \<open>DailyHits\<close> and the
  slices \<open>RiskLabels\<close> and \<open>StatusCodeHistory\<close>) are type parameters: the tracker's own
  methods work on their contents, the memory model on their addresses.
\<close>

record ('m, 'ls, 'li) DomainEntryG =
  domain :: string
  hitCount :: int
  firstSeen :: time
  lastSeen :: time
  lastNotified :: time
  resolved :: bool
  blacklisted :: bool
  blacklistedDate :: time
  dailyHits :: 'm
  highHitDays :: int
  lastHighHitDate :: "date option"
  httpStatusCode :: int
  responseSize :: int
  responseLineCount :: int
  responseWordCount :: int
  riskLabels :: 'ls
  riskScore :: int
  certIssuer :: string
  previousIssuer :: string
  statusCodeHistory :: 'li
  isDuplicate :: bool

type_synonym DomainEntry = "(date \<rightharpoonup> int, string list, int list) DomainEntryG"

text \<open>
  The tracker: the table in memory (\<open>dt.domains\<close>) and the table last written to
  \<open>dt.filePath\<close>.
\<close>

record DomainTracker =
  domains :: "(string, DomainEntry) fmap"
  disk :: "(string, DomainEntry) fmap"

text \<open>A composite literal \<open>&DomainEntry{...}\<close> leaves every field it does not name zero.\<close>

definition zeroEntry :: DomainEntry where
  "zeroEntry = \<lparr> domain = '''', hitCount = 0, firstSeen = zeroTime, lastSeen = zeroTime,
     lastNotified = zeroTime, resolved = False, blacklisted = False,
     blacklistedDate = zeroTime, dailyHits = Map.empty, highHitDays = 0,
     lastHighHitDate = None, httpStatusCode = 0, responseSize = 0, responseLineCount = 0,
     responseWordCount = 0, riskLabels = [], riskScore = 0, certIssuer = '''',
     previousIssuer = '''', statusCodeHistory = [], isDuplicate = False \<rparr>"

definition save :: "DomainTracker \<Rightarrow> DomainTracker" where
  "save dt = dt\<lparr>disk := domains dt\<rparr>"

text \<open>Reading a Go map at a missing key gives the zero value.\<close>

definition hitsOn :: "(date \<rightharpoonup> int) \<Rightarrow> date \<Rightarrow> int" where
  "hitsOn m d = (case m d of None \<Rightarrow> 0 | Some c \<Rightarrow> c)"

text \<open>
  \<open>updateDailyHits\<close>, first what it does to the entry it is given, then the method, which
  ends with \<open>dt.save()\<close>. The entry is the object stored under key \<open>d\<close>.
\<close>

definition updateDailyHitsEntry :: "time \<Rightarrow> DomainEntry \<Rightarrow> DomainEntry" where
  "updateDailyHitsEntry now entry =
     (let today = dateOf now;
          e1 = entry\<lparr>dailyHits := (dailyHits entry)(today \<mapsto> hitsOn (dailyHits entry) today + 1)\<rparr>
      in if hitsOn (dailyHits e1) today > 10 then
           (if lastHighHitDate e1 \<noteq> Some today then
              (let yesterday = dateOf now - 1;
                   e2 = (if lastHighHitDate e1 = Some yesterday
                         then e1\<lparr>highHitDays := highHitDays e1 + 1\<rparr>
                         else e1\<lparr>highHitDays := 1\<rparr>);
                   e3 = e2\<lparr>lastHighHitDate := Some today\<rparr>
               in if highHitDays e3 \<ge> 3
                  then e3\<lparr>blacklisted := True, blacklistedDate := now\<rparr>
                  else e3)
            else e1)
         else e1)"

definition updateDailyHits :: "time \<Rightarrow> string \<Rightarrow> DomainEntry \<Rightarrow> DomainTracker \<Rightarrow> DomainTracker" where
  "updateDailyHits now d entry dt =
     save (dt\<lparr>domains := fmupd d (updateDailyHitsEntry now entry) (domains dt)\<rparr>)"

definition ShouldNotifyDomain :: "time \<Rightarrow> string \<Rightarrow> DomainTracker \<Rightarrow> bool \<times> DomainTracker" where
  "ShouldNotifyDomain now host dt =
     (let d = normalize host in
      case fmlookup (domains dt) d of
        None \<Rightarrow>
          (True, dt\<lparr>domains := fmupd d
             (zeroEntry\<lparr>domain := d, hitCount := 1, firstSeen := now, lastSeen := now,
                lastNotified := now, resolved := False,
                dailyHits := [dateOf now \<mapsto> 1]\<rparr>) (domains dt)\<rparr>)
      | Some entry \<Rightarrow>
          if blacklisted entry then
            (False, dt\<lparr>domains := fmupd d
               (entry\<lparr>hitCount := hitCount entry + 1, lastSeen := now\<rparr>) (domains dt)\<rparr>)
          else if now - lastNotified entry \<ge> sevenDays
                  \<and> dateOf now \<noteq> dateOf (lastNotified entry) then
            (True, updateDailyHits now d
               (entry\<lparr>hitCount := hitCount entry + 1, lastSeen := now, lastNotified := now\<rparr>) dt)
          else
            (False, updateDailyHits now d
               (entry\<lparr>hitCount := hitCount entry + 1, lastSeen := now\<rparr>) dt))"

definition RecordDomainResolution :: "time \<Rightarrow> string \<Rightarrow> bool \<Rightarrow> DomainTracker \<Rightarrow> DomainTracker" where
  "RecordDomainResolution now host r dt =
     (let d = normalize host;
          entry = (case fmlookup (domains dt) d of
                     None \<Rightarrow> zeroEntry\<lparr>domain := d, firstSeen := now, lastSeen := now\<rparr>
                   | Some e \<Rightarrow> e)
      in save (dt\<lparr>domains := fmupd d (entry\<lparr>resolved := r\<rparr>) (domains dt)\<rparr>))"


definition IsBlacklisted :: "string \<Rightarrow> DomainTracker \<Rightarrow> bool" where
  "IsBlacklisted host dt =
     (case fmlookup (domains dt) (normalize host) of None \<Rightarrow> False | Some entry \<Rightarrow> blacklisted entry)"

text \<open>
  \<open>ClearOldEntries\<close> returns the number of entries it removed and saves when that number is
  positive.
\<close>

definition ClearOldEntries :: "time \<Rightarrow> int \<Rightarrow> DomainTracker \<Rightarrow> nat \<times> DomainTracker" where
  "ClearOldEntries now maxAge dt =
     (let stale = (\<lambda>k. case fmlookup (domains dt) k of
                          None \<Rightarrow> False | Some entry \<Rightarrow> now - lastSeen entry > maxAge);
          removed = fcard (fmdom (fmfilter stale (domains dt)));
          dt1 = dt\<lparr>domains := fmfilter (\<lambda>k. \<not> stale k) (domains dt)\<rparr>
      in (removed, if removed > 0 then save dt1 else dt1))"

definition ForceNotifyDomain :: "time \<Rightarrow> string \<Rightarrow> DomainTracker \<Rightarrow> DomainTracker" where
  "ForceNotifyDomain now host dt =
     (let d = normalize host in
      case fmlookup (domains dt) d of
        None \<Rightarrow>
          save (dt\<lparr>domains := fmupd d
             (zeroEntry\<lparr>domain := d, hitCount := 1, firstSeen := now, lastSeen := now,
                lastNotified := now, dailyHits := [dateOf now \<mapsto> 1]\<rparr>) (domains dt)\<rparr>)
      | Some entry \<Rightarrow>
          save (updateDailyHits now d
             (entry\<lparr>hitCount := hitCount entry + 1, lastSeen := now, lastNotified := now\<rparr>) dt))"

subsection \<open>Risk labels and risk score\<close>

definition addRiskLabel :: "string \<Rightarrow> DomainEntry \<Rightarrow> DomainEntry" where
  "addRiskLabel label entry =
     (if label \<in> set (riskLabels entry) then entry
      else entry\<lparr>riskLabels := riskLabels entry @ [label]\<rparr>)"

text \<open>
  \<open>calculateRisk\<close>: the pair threaded through the checks is the entry (labels are added as
  the checks fire) and the local variable \<open>score\<close>. \<open>len(uniqueStatuses)\<close> is the number of
  distinct values of the history.
\<close>

definition calculateRisk :: "DomainEntry \<Rightarrow> DomainEntry" where
  "calculateRisk entry =
     (let (e1, s1) = (if IsWildcardDomain (domain entry)
                      then (addRiskLabel ''wildcard'' entry, 0 + 30) else (entry, 0));
          (e2, s2) = (if length (statusCodeHistory e1) \<ge> 3
                         \<and> length (remdups (statusCodeHistory e1)) \<ge> 3
                      then (addRiskLabel ''status-anomaly'' e1, s1 + 20) else (e1, s1));
          (e3, s3) = (if hitCount e2 > 50 \<or> highHitDays e2 \<ge> 2
                      then (addRiskLabel ''high-frequency'' e2, s2 + 25) else (e2, s2));
          s4 = (if previousIssuer e3 \<noteq> '''' then s3 + 15 else s3);
          (e5, s5) = (if responseSize e3 > 0
                         \<and> (responseSize e3 < 100 \<or> responseSize e3 > 1000000)
                      then (addRiskLabel ''response-anomaly'' e3, s4 + 10) else (e3, s4));
          s6 = (if s5 > 100 then 100 else s5);
          e6 = e5\<lparr>riskScore := s6\<rparr>
      in if hitCount e6 > 100 \<and> responseSize e6 < 500 then e6\<lparr>isDuplicate := True\<rparr> else e6)"

definition RecordDomainMetadata ::
  "string \<Rightarrow> int \<Rightarrow> int \<Rightarrow> int \<Rightarrow> int \<Rightarrow> DomainTracker \<Rightarrow> DomainTracker" where
  "RecordDomainMetadata host statusCode respSize lineCount wordCount dt =
     (let d = normalize host in
      case fmlookup (domains dt) d of
        None \<Rightarrow> dt
      | Some entry \<Rightarrow>
          (let h = statusCodeHistory entry @ [statusCode];
               h' = (if length h > 10 then drop (length h - 10) h else h);
               e1 = entry\<lparr>statusCodeHistory := h', httpStatusCode := statusCode,
                      responseSize := respSize, responseLineCount := lineCount,
                      responseWordCount := wordCount\<rparr>
           in save (dt\<lparr>domains := fmupd d (calculateRisk e1) (domains dt)\<rparr>)))"

definition RecordDomainIssuer :: "string \<Rightarrow> string \<Rightarrow> DomainTracker \<Rightarrow> DomainTracker" where
  "RecordDomainIssuer host issuer dt =
     (let d = normalize host in
      case fmlookup (domains dt) d of
        None \<Rightarrow> dt
      | Some entry \<Rightarrow>
          (let e1 = (if certIssuer entry \<noteq> '''' \<and> certIssuer entry \<noteq> issuer
                     then addRiskLabel ''issuer-change''
                            (entry\<lparr>previousIssuer := certIssuer entry\<rparr>)
                     else entry);
               e2 = e1\<lparr>certIssuer := issuer\<rparr>
           in save (dt\<lparr>domains := fmupd d (calculateRisk e2) (domains dt)\<rparr>)))"

text \<open>
  The risk score in the words of the specification: a sum of five weights over six fields of
  the entry, capped at 100.
\<close>

definition specRiskScore :: "string \<Rightarrow> int list \<Rightarrow> int \<Rightarrow> int \<Rightarrow> string \<Rightarrow> int \<Rightarrow> int" where
  "specRiskScore name history hits highDays prevIssuer respSize =
     min 100
       (0 + (if take 2 name = ''*.'' then 30 else 0)
          + (if length history \<ge> 3 \<and> card (set history) \<ge> 3 then 20 else 0)
          + (if hits > 50 \<or> highDays \<ge> 2 then 25 else 0)
          + (if prevIssuer \<noteq> '''' then 15 else 0)
          + (if (0 < respSize \<and> respSize < 100) \<or> respSize > 1000000 then 10 else 0))"

subsection \<open>Calls on the tracker, one after the other\<close>

text \<open>
  The mutating methods of \<open>DomainTracker\<close> as a datatype of calls. The tracker's lock
  serialises them, so a run of the program is a list of calls, each with the clock reading it
  made.
\<close>

datatype trackerOp =
    OpShouldNotify string
  | OpResolution string bool
  | OpIssuer string string
  | OpMetadata string int int int int
  | OpForceNotify string
  | OpClearOld int

fun step :: "time \<times> trackerOp \<Rightarrow> DomainTracker \<Rightarrow> DomainTracker" where
  "step (now, OpShouldNotify h) dt = snd (ShouldNotifyDomain now h dt)"
| "step (now, OpResolution h r) dt = RecordDomainResolution now h r dt"
| "step (now, OpIssuer h i) dt = RecordDomainIssuer h i dt"
| "step (now, OpMetadata h c s l w) dt = RecordDomainMetadata h c s l w dt"
| "step (now, OpForceNotify h) dt = ForceNotifyDomain now h dt"
| "step (now, OpClearOld maxAge) dt = snd (ClearOldEntries now maxAge dt)"

definition run :: "(time \<times> trackerOp) list \<Rightarrow> DomainTracker \<Rightarrow> DomainTracker" where
  "run ops dt = fold step ops dt"

text \<open>The key a call addresses; the sweep addresses none.\<close>

fun opKey :: "trackerOp \<Rightarrow> string option" where
  "opKey (OpShouldNotify h) = Some (normalize h)"
| "opKey (OpResolution h r) = Some (normalize h)"
| "opKey (OpIssuer h i) = Some (normalize h)"
| "opKey (OpMetadata h c s l w) = Some (normalize h)"
| "opKey (OpForceNotify h) = Some (normalize h)"
| "opKey (OpClearOld maxAge) = None"

fun isSweep :: "trackerOp \<Rightarrow> bool" where
  "isSweep (OpClearOld maxAge) = True"
| "isSweep _ = False"

text \<open>The sightings of one host at the given clock readings, in order.\<close>

definition sightings :: "string \<Rightarrow> time list \<Rightarrow> (time \<times> trackerOp) list" where
  "sightings h ts = map (\<lambda>t. (t, OpShouldNotify h)) ts"

subsection \<open>The notification buffer (send.go)\<close>

definition maxBatchSize :: nat where
  "maxBatchSize = 25"

definition maxRetries :: nat where
  "maxRetries = 3"

text \<open>\<open>rateLimitWait = 2 * time.Second\<close>, in nanoseconds.\<close>

definition rateLimitWait :: int where
  "rateLimitWait = 2 * 1000000000"

text \<open>
  The buffer holds the two maps of the source. A \<open>*time.Timer\<close> is a timer number;
  \<open>stopped\<close> collects the timers on which \<open>Stop\<close> was called, \<open>spawned\<close> the goroutines
  started by \<open>go n.send(target, domains)\<close>, in the order of their start. A spawned send is not
  run by \<open>add\<close>: it is a task handed to the scheduler.
\<close>

record notificationBuffer =
  pending :: "string \<rightharpoonup> string list"
  timers :: "string \<rightharpoonup> nat"
  nextTimer :: nat
  stopped :: "nat list"
  spawned :: "(string \<times> string list) list"

definition pendingOf :: "notificationBuffer \<Rightarrow> string \<Rightarrow> string list" where
  "pendingOf n target = (case pending n target of None \<Rightarrow> [] | Some ds \<Rightarrow> ds)"

definition add :: "string \<Rightarrow> string \<Rightarrow> notificationBuffer \<Rightarrow> notificationBuffer" where
  "add target item n =
     (let n1 = n\<lparr>pending := (pending n)(target \<mapsto> pendingOf n target @ [item])\<rparr>
      in if length (pendingOf n1 target) \<ge> maxBatchSize then
           (let batch = pendingOf n1 target;
                n2 = n1\<lparr>pending := (pending n1)(target := None)\<rparr>;
                n3 = (case timers n2 target of
                        None \<Rightarrow> n2
                      | Some timer \<Rightarrow>
                          n2\<lparr>stopped := stopped n2 @ [timer],
                             timers := (timers n2)(target := None)\<rparr>)
            in n3\<lparr>spawned := spawned n3 @ [(target, batch)]\<rparr>)
         else
           (case timers n1 target of
              Some timer \<Rightarrow> n1
            | None \<Rightarrow> n1\<lparr>timers := (timers n1)(target \<mapsto> nextTimer n1),
                         nextTimer := nextTimer n1 + 1\<rparr>))"

definition addAll :: "string \<Rightarrow> string list \<Rightarrow> notificationBuffer \<Rightarrow> notificationBuffer" where
  "addAll target items n = fold (add target) items n"

subsection \<open>Delivery to a sink (send.go)\<close>

text \<open>
  What \<open>http.Post\<close> returns: an error and no response, or a response with a status code. The
  sink is a function from the number of the attempt to what that attempt gets. The trace of a
  delivery lists the posts (with the body sent) and the sleeps (with their duration).
\<close>

datatype response = TransportError | Status int

datatype 'p event = Post 'p | Sleep int

datatype outcome = Delivered | Abandoned | Exhausted | MarshalFailed | NotConfigured

function sendDiscordLoop :: "(nat \<Rightarrow> response) \<Rightarrow> 'p \<Rightarrow> nat \<Rightarrow> 'p event list \<times> outcome" where
  "sendDiscordLoop post jsonData attempt =
     (if attempt < maxRetries then
        (case post attempt of
           TransportError \<Rightarrow> ([Post jsonData], Abandoned)
         | Status code \<Rightarrow>
             if code = 200 \<or> code = 204 then ([Post jsonData], Delivered)
             else if code = 429 then
               (case sendDiscordLoop post jsonData (attempt + 1) of
                  (evs, out) \<Rightarrow>
                    (Post jsonData # Sleep (rateLimitWait * (int attempt + 1)) # evs, out))
             else ([Post jsonData], Abandoned))
      else ([], Exhausted))"
  by pat_completeness auto
termination
  by (relation "measure (\<lambda>(post, jsonData, attempt). maxRetries - attempt)") auto

text \<open>
  \<open>sendDiscord\<close>: the payload is built and marshalled once, before the loop. \<open>marshal\<close> is
  \<open>json.Marshal\<close> after \<open>buildDiscordPayload\<close>; \<open>None\<close> is its error. What follows a
  successful post (the new-domains webhook, enumeration) is not part of the delivery.
\<close>

definition sendDiscord ::
  "(string \<times> string list \<Rightarrow> 'p option) \<Rightarrow> (nat \<Rightarrow> response) \<Rightarrow> string \<Rightarrow> string list
     \<Rightarrow> 'p event list \<times> outcome" where
  "sendDiscord marshal post target batch =
     (case marshal (target, batch) of
        None \<Rightarrow> ([], MarshalFailed)
      | Some jsonData \<Rightarrow> sendDiscordLoop post jsonData 0)"

function sendToTelegramLoop :: "(nat \<Rightarrow> response) \<Rightarrow> 'p \<Rightarrow> nat \<Rightarrow> 'p event list \<times> outcome" where
  "sendToTelegramLoop post jsonData attempt =
     (if attempt < maxRetries then
        (case post attempt of
           TransportError \<Rightarrow> ([Post jsonData], Abandoned)
         | Status code \<Rightarrow>
             if code = 200 then ([Post jsonData], Delivered)
             else if code = 429 then
               (case sendToTelegramLoop post jsonData (attempt + 1) of
                  (evs, out) \<Rightarrow>
                    (Post jsonData # Sleep (rateLimitWait * (int attempt + 1)) # evs, out))
             else ([Post jsonData], Abandoned))
      else ([], Exhausted))"
  by pat_completeness auto
termination
  by (relation "measure (\<lambda>(post, jsonData, attempt). maxRetries - attempt)") auto

definition sendToTelegram ::
  "string \<Rightarrow> string \<Rightarrow> (string \<times> string list \<Rightarrow> 'p option) \<Rightarrow> (nat \<Rightarrow> response) \<Rightarrow> string
     \<Rightarrow> string list \<Rightarrow> 'p event list \<times> outcome" where
  "sendToTelegram telegramToken telegramChatID marshal post target batch =
     (if telegramToken = '''' \<or> telegramChatID = '''' then ([], NotConfigured)
      else case marshal (target, batch) of
             None \<Rightarrow> ([], MarshalFailed)
           | Some jsonData \<Rightarrow> sendToTelegramLoop post jsonData 0)"

text \<open>The posts of a trace, and the status codes each sink takes for success.\<close>

definition posts :: "'p event list \<Rightarrow> 'p list" where
  "posts evs = concat (map (\<lambda>ev. case ev of Post p \<Rightarrow> [p] | Sleep d \<Rightarrow> []) evs)"

definition discordSuccess :: "int \<Rightarrow> bool" where
  "discordSuccess code = (code = 200 \<or> code = 204)"

definition telegramSuccess :: "int \<Rightarrow> bool" where
  "telegramSuccess code = (code = 200)"

subsection \<open>The getters, in memory\<close>

text \<open>
  \<open>GetDomainInfo\<close> returns \<open>&copy\<close> after \<open>copy := *entry\<close>. A struct assignment copies the
  words of the struct: the scalar fields, the address of the map and the headers of the two
  slices. Memory holds the structs, the map objects and the backing arrays, by address.
\<close>

type_synonym ref = nat

record sliceHdr =
  arrayRef :: "ref option"
  sliceLen :: nat

type_synonym DomainEntryMem = "(ref option, sliceHdr, sliceHdr) DomainEntryG"

record memory =
  structs :: "ref \<rightharpoonup> DomainEntryMem"
  hitMaps :: "ref \<rightharpoonup> (date \<rightharpoonup> int)"
  strArrays :: "ref \<rightharpoonup> string list"
  intArrays :: "ref \<rightharpoonup> int list"
  nextRef :: ref

text \<open>The table \<open>map[string]*DomainEntry\<close>: keys to addresses of structs.\<close>

type_synonym domainsMem = "string \<rightharpoonup> ref"

definition GetDomainInfoMem :: "string \<Rightarrow> domainsMem \<Rightarrow> memory \<Rightarrow> ref option \<times> memory" where
  "GetDomainInfoMem host tbl mem =
     (case tbl (normalize host) of
        None \<Rightarrow> (None, mem)
      | Some p \<Rightarrow>
          (case structs mem p of
             None \<Rightarrow> (None, mem)
           | Some entry \<Rightarrow>
               (Some (nextRef mem),
                mem\<lparr>structs := (structs mem)(nextRef mem \<mapsto> entry),
                    nextRef := nextRef mem + 1\<rparr>)))"

text \<open>
  What a caller can do with the pointer it got: assign a scalar field
  (\<open>info.HitCount = v\<close>), assign through the map (\<open>info.DailyHits[k] = v\<close>) or assign an
  element of a slice (\<open>info.RiskLabels[i] = s\<close>). \<open>None\<close> is a panic (nil pointer, nil map,
  index out of range).
\<close>

definition callerSetHitCount :: "ref \<Rightarrow> int \<Rightarrow> memory \<Rightarrow> memory option" where
  "callerSetHitCount p v mem =
     (case structs mem p of
        None \<Rightarrow> None
      | Some s \<Rightarrow> Some (mem\<lparr>structs := (structs mem)(p \<mapsto> s\<lparr>hitCount := v\<rparr>)\<rparr>))"

definition callerSetDailyHit :: "ref \<Rightarrow> date \<Rightarrow> int \<Rightarrow> memory \<Rightarrow> memory option" where
  "callerSetDailyHit p k v mem =
     (case structs mem p of
        None \<Rightarrow> None
      | Some s \<Rightarrow>
          (case dailyHits s of
             None \<Rightarrow> None
           | Some a \<Rightarrow>
               (case hitMaps mem a of
                  None \<Rightarrow> None
                | Some m \<Rightarrow> Some (mem\<lparr>hitMaps := (hitMaps mem)(a \<mapsto> m(k \<mapsto> v))\<rparr>))))"

definition callerSetRiskLabel :: "ref \<Rightarrow> nat \<Rightarrow> string \<Rightarrow> memory \<Rightarrow> memory option" where
  "callerSetRiskLabel p i v mem =
     (case structs mem p of
        None \<Rightarrow> None
      | Some s \<Rightarrow>
          (if i < sliceLen (riskLabels s) then
             (case arrayRef (riskLabels s) of
                None \<Rightarrow> None
              | Some a \<Rightarrow>
                  (case strArrays mem a of
                     None \<Rightarrow> None
                   | Some xs \<Rightarrow> Some (mem\<lparr>strArrays := (strArrays mem)(a \<mapsto> xs[i := v])\<rparr>)))
           else None))"

text \<open>
  The entry that the struct at an address denotes: its reference-typed fields are read
  through memory. This is what a method of the tracker sees of its own entry.
\<close>

definition readStrSlice :: "memory \<Rightarrow> sliceHdr \<Rightarrow> string list" where
  "readStrSlice mem h =
     (case arrayRef h of
        None \<Rightarrow> []
      | Some a \<Rightarrow> (case strArrays mem a of None \<Rightarrow> [] | Some xs \<Rightarrow> take (sliceLen h) xs))"

definition readIntSlice :: "memory \<Rightarrow> sliceHdr \<Rightarrow> int list" where
  "readIntSlice mem h =
     (case arrayRef h of
        None \<Rightarrow> []
      | Some a \<Rightarrow> (case intArrays mem a of None \<Rightarrow> [] | Some xs \<Rightarrow> take (sliceLen h) xs))"

definition readHitMap :: "memory \<Rightarrow> ref option \<Rightarrow> (date \<rightharpoonup> int)" where
  "readHitMap mem r =
     (case r of
        None \<Rightarrow> Map.empty
      | Some a \<Rightarrow> (case hitMaps mem a of None \<Rightarrow> Map.empty | Some m \<Rightarrow> m))"

definition entryAt :: "memory \<Rightarrow> ref \<Rightarrow> DomainEntry option" where
  "entryAt mem p =
     (case structs mem p of
        None \<Rightarrow> None
      | Some s \<Rightarrow>
          Some \<lparr> domain = domain s, hitCount = hitCount s, firstSeen = firstSeen s,
            lastSeen = lastSeen s, lastNotified = lastNotified s, resolved = resolved s,
            blacklisted = blacklisted s, blacklistedDate = blacklistedDate s,
            dailyHits = readHitMap mem (dailyHits s), highHitDays = highHitDays s,
            lastHighHitDate = lastHighHitDate s, httpStatusCode = httpStatusCode s,
            responseSize = responseSize s, responseLineCount = responseLineCount s,
            responseWordCount = responseWordCount s,
            riskLabels = readStrSlice mem (riskLabels s), riskScore = riskScore s,
            certIssuer = certIssuer s, previousIssuer = previousIssuer s,
            statusCodeHistory = readIntSlice mem (statusCodeHistory s),
            isDuplicate = isDuplicate s \<rparr>)"

subsection \<open>What a call does to one entry\<close>

text \<open>
  The effect of each call on the entry under one key, read off the methods above: the table
  after a call is the table before it with this function applied at the key of the call (at
  every key, for the sweep). The lemma \<open>step_lookup\<close> proves that reading.
\<close>

definition newEntry :: "time \<Rightarrow> string \<Rightarrow> DomainEntry" where
  "newEntry now d = zeroEntry\<lparr>domain := d, hitCount := 1, firstSeen := now, lastSeen := now,
     lastNotified := now, resolved := False, dailyHits := [dateOf now \<mapsto> 1]\<rparr>"

definition observe :: "time \<Rightarrow> DomainEntry \<Rightarrow> DomainEntry" where
  "observe now e =
     (if blacklisted e then e\<lparr>hitCount := hitCount e + 1, lastSeen := now\<rparr>
      else if now - lastNotified e \<ge> sevenDays \<and> dateOf now \<noteq> dateOf (lastNotified e)
      then updateDailyHitsEntry now
             (e\<lparr>hitCount := hitCount e + 1, lastSeen := now, lastNotified := now\<rparr>)
      else updateDailyHitsEntry now (e\<lparr>hitCount := hitCount e + 1, lastSeen := now\<rparr>))"

definition issuerEntry :: "string \<Rightarrow> DomainEntry \<Rightarrow> DomainEntry" where
  "issuerEntry issuer e =
     calculateRisk
       ((if certIssuer e \<noteq> '''' \<and> certIssuer e \<noteq> issuer
         then addRiskLabel ''issuer-change'' (e\<lparr>previousIssuer := certIssuer e\<rparr>)
         else e)\<lparr>certIssuer := issuer\<rparr>)"

definition metadataEntry :: "int \<Rightarrow> int \<Rightarrow> int \<Rightarrow> int \<Rightarrow> DomainEntry \<Rightarrow> DomainEntry" where
  "metadataEntry c s l w e =
     calculateRisk
       (e\<lparr>statusCodeHistory :=
            (if length (statusCodeHistory e @ [c]) > 10
             then drop (length (statusCodeHistory e @ [c]) - 10) (statusCodeHistory e @ [c])
             else statusCodeHistory e @ [c]),
          httpStatusCode := c, responseSize := s, responseLineCount := l,
          responseWordCount := w\<rparr>)"

fun entryStep :: "time \<Rightarrow> trackerOp \<Rightarrow> DomainEntry option \<Rightarrow> DomainEntry option" where
  "entryStep now (OpShouldNotify h) None = Some (newEntry now (normalize h))"
| "entryStep now (OpShouldNotify h) (Some e) = Some (observe now e)"
| "entryStep now (OpResolution h r) None =
     Some (zeroEntry\<lparr>domain := normalize h, firstSeen := now, lastSeen := now, resolved := r\<rparr>)"
| "entryStep now (OpResolution h r) (Some e) = Some (e\<lparr>resolved := r\<rparr>)"
| "entryStep now (OpIssuer h i) eo = map_option (issuerEntry i) eo"
| "entryStep now (OpMetadata h c s l w) eo = map_option (metadataEntry c s l w) eo"
| "entryStep now (OpForceNotify h) None =
     Some (zeroEntry\<lparr>domain := normalize h, hitCount := 1, firstSeen := now, lastSeen := now,
        lastNotified := now, dailyHits := [dateOf now \<mapsto> 1]\<rparr>)"
| "entryStep now (OpForceNotify h) (Some e) =
     Some (updateDailyHitsEntry now
        (e\<lparr>hitCount := hitCount e + 1, lastSeen := now, lastNotified := now\<rparr>))"
| "entryStep now (OpClearOld maxAge) None = None"
| "entryStep now (OpClearOld maxAge) (Some e) =
     (if now - lastSeen e > maxAge then None else Some e)"

subsection \<open>Start of the tracker, and runs of calls\<close>

text \<open>
  \<open>InitDomainTracker\<close> starts from an empty table and loads the file. \<open>None\<close> is a file
  that is absent or cannot be read (the tracker then starts empty), \<open>Some tbl\<close> a file that
  holds the table \<open>tbl\<close>.
\<close>

definition InitDomainTracker :: "(string, DomainEntry) fmap option \<Rightarrow> DomainTracker" where
  "InitDomainTracker file =
     (case file of
        None \<Rightarrow> \<lparr>domains = fmempty, disk = fmempty\<rparr>
      | Some tbl \<Rightarrow> \<lparr>domains = tbl, disk = tbl\<rparr>)"

text \<open>No entry of the table holds a risk label twice.\<close>

definition labelsDistinct :: "DomainTracker \<Rightarrow> bool" where
  "labelsDistinct dt = (\<forall>k e. fmlookup (domains dt) k = Some e \<longrightarrow> distinct (riskLabels e))"

text \<open>
  Conditions on a run: a sweep in it keeps entries for at least \<open>age\<close>; every call reads
  the clock between \<open>t1\<close> and \<open>t2\<close> and every sweep keeps entries for 7 days or more
  (\<open>main.go\<close> sweeps with 30 days); the run has no sweep.
\<close>

definition keepsFor :: "int \<Rightarrow> trackerOp \<Rightarrow> bool" where
  "keepsFor age op = (case op of OpClearOld maxAge \<Rightarrow> age \<le> maxAge | _ \<Rightarrow> True)"

definition callsBetween :: "time \<Rightarrow> time \<Rightarrow> (time \<times> trackerOp) list \<Rightarrow> bool" where
  "callsBetween t1 t2 ops =
     list_all (\<lambda>(t, op). t1 \<le> t \<and> t \<le> t2 \<and> keepsFor sevenDays op) ops"

definition noSweep :: "(time \<times> trackerOp) list \<Rightarrow> bool" where
  "noSweep ops = list_all (\<lambda>(t, op). \<not> isSweep op) ops"

text \<open>Sightings of one host with an entry, at the given clock readings, on that entry.\<close>

definition observes :: "time list \<Rightarrow> DomainEntry \<Rightarrow> DomainEntry" where
  "observes ts e = fold observe ts e"

text \<open>The equations of the two loops are unfolded by hand, one attempt at a time.\<close>

declare sendDiscordLoop.simps [simp del]
declare sendToTelegramLoop.simps [simp del]

subsection \<open>An example memory\<close>

text \<open>
  A memory with one tracked host: the struct of \<open>a.example.com\<close> at address 0, its map of
  daily hits at address 1, the backing array of its risk labels at address 2.
\<close>

definition exampleStruct :: DomainEntryMem where
  "exampleStruct = \<lparr> domain = ''a.example.com'', hitCount = 3, firstSeen = 0, lastSeen = 0,
     lastNotified = 0, resolved = True, blacklisted = False, blacklistedDate = zeroTime,
     dailyHits = Some 1, highHitDays = 0, lastHighHitDate = None, httpStatusCode = 0,
     responseSize = 0, responseLineCount = 0, responseWordCount = 0,
     riskLabels = \<lparr>arrayRef = Some 2, sliceLen = 1\<rparr>, riskScore = 15, certIssuer = ''R3'',
     previousIssuer = ''E1'', statusCodeHistory = \<lparr>arrayRef = None, sliceLen = 0\<rparr>,
     isDuplicate = False \<rparr>"

definition exampleMemory :: memory where
  "exampleMemory = \<lparr> structs = [0 \<mapsto> exampleStruct], hitMaps = [1 \<mapsto> [0 \<mapsto> 3]],
     strArrays = [2 \<mapsto> [''issuer-change'']], intArrays = Map.empty, nextRef = 3 \<rparr>"

definition exampleTable :: domainsMem where
  "exampleTable = [''a.example.com'' \<mapsto> 0]"

section \<open>Risk score\<close>

lemma addRiskLabel_fields:
  "domain (addRiskLabel l e) = domain e"
  "hitCount (addRiskLabel l e) = hitCount e"
  "highHitDays (addRiskLabel l e) = highHitDays e"
  "previousIssuer (addRiskLabel l e) = previousIssuer e"
  "responseSize (addRiskLabel l e) = responseSize e"
  "statusCodeHistory (addRiskLabel l e) = statusCodeHistory e"
  "blacklisted (addRiskLabel l e) = blacklisted e"
  "lastNotified (addRiskLabel l e) = lastNotified e"
  "lastSeen (addRiskLabel l e) = lastSeen e"
  "dailyHits (addRiskLabel l e) = dailyHits e"
  "firstSeen (addRiskLabel l e) = firstSeen e"
  by (simp_all add: addRiskLabel_def)

lemma calculateRisk_score:
  "riskScore (calculateRisk e) =
     specRiskScore (domain e) (statusCodeHistory e) (hitCount e) (highHitDays e)
       (previousIssuer e) (responseSize e)"
  by (simp add: calculateRisk_def specRiskScore_def IsWildcardDomain_def Let_def
      addRiskLabel_fields length_remdups_card_conv split: prod.splits)

lemma calculateRisk_fields:
  "domain (calculateRisk e) = domain e"
  "hitCount (calculateRisk e) = hitCount e"
  "highHitDays (calculateRisk e) = highHitDays e"
  "previousIssuer (calculateRisk e) = previousIssuer e"
  "responseSize (calculateRisk e) = responseSize e"
  "statusCodeHistory (calculateRisk e) = statusCodeHistory e"
  "blacklisted (calculateRisk e) = blacklisted e"
  "lastNotified (calculateRisk e) = lastNotified e"
  "lastSeen (calculateRisk e) = lastSeen e"
  "dailyHits (calculateRisk e) = dailyHits e"
  "firstSeen (calculateRisk e) = firstSeen e"
  by (simp_all add: calculateRisk_def Let_def addRiskLabel_fields split: prod.splits)

lemma specRiskScore_bounds:
  "0 \<le> specRiskScore n h c k p r" "specRiskScore n h c k p r \<le> 100"
  by (simp_all add: specRiskScore_def)

text \<open>
  C6. Each recomputation of the risk score gives 0, plus 30 for a \<open>*.\<close>-prefixed domain,
  plus 20 for a status history of at least 3 entries with at least 3 distinct values, plus 25
  for more than 50 hits or at least 2 high-hit days, plus 15 for a non-empty previous issuer,
  plus 10 for a response size strictly between 0 and 100 or above 1,000,000, capped at 100.
  The score lies in [0,100], it is a function of those six fields alone, and recomputing on
  the unchanged entry gives the same score.
\<close>

theorem C6_risk_score:
  "riskScore (calculateRisk e) =
     specRiskScore (domain e) (statusCodeHistory e) (hitCount e) (highHitDays e)
       (previousIssuer e) (responseSize e)
   \<and> 0 \<le> riskScore (calculateRisk e) \<and> riskScore (calculateRisk e) \<le> 100
   \<and> riskScore (calculateRisk (calculateRisk e)) = riskScore (calculateRisk e)"
  by (simp add: calculateRisk_score calculateRisk_fields specRiskScore_bounds)

theorem C6_risk_score_witness:
  "riskScore (calculateRisk (zeroEntry\<lparr>domain := ''*.shop.example.com'', hitCount := 51,
      statusCodeHistory := [200, 404, 500], previousIssuer := ''R3'',
      responseSize := 42\<rparr>)) = 100
   \<and> riskScore (calculateRisk (zeroEntry\<lparr>domain := ''a.example.com'', hitCount := 7,
      statusCodeHistory := [200, 200, 404], responseSize := 2000000\<rparr>)) = 10"
  using C6_risk_score [of "zeroEntry\<lparr>domain := ''*.shop.example.com'', hitCount := 51,
      statusCodeHistory := [200, 404, 500], previousIssuer := ''R3'', responseSize := 42\<rparr>"]
    C6_risk_score [of "zeroEntry\<lparr>domain := ''a.example.com'', hitCount := 7,
      statusCodeHistory := [200, 200, 404], responseSize := 2000000\<rparr>"]
  by (simp add: specRiskScore_def zeroEntry_def)

section \<open>Calls and entries\<close>

lemma step_lookup:
  "fmlookup (domains (step (now, op) dt)) k =
     (if isSweep op \<or> opKey op = Some k then entryStep now op (fmlookup (domains dt) k)
      else fmlookup (domains dt) k)"
proof (cases op)
  case (OpShouldNotify h)
  then show ?thesis
    by (cases "fmlookup (domains dt) (normalize h)")
       (auto simp: ShouldNotifyDomain_def updateDailyHits_def save_def observe_def
          newEntry_def Let_def)
next
  case (OpResolution h r)
  then show ?thesis
    by (cases "fmlookup (domains dt) (normalize h)")
       (auto simp: RecordDomainResolution_def save_def Let_def)
next
  case (OpIssuer h i)
  then show ?thesis
    by (cases "fmlookup (domains dt) (normalize h)")
       (auto simp: RecordDomainIssuer_def save_def Let_def issuerEntry_def)
next
  case (OpMetadata h c s l w)
  then show ?thesis
    by (cases "fmlookup (domains dt) (normalize h)")
       (auto simp: RecordDomainMetadata_def save_def Let_def metadataEntry_def)
next
  case (OpForceNotify h)
  then show ?thesis
    by (cases "fmlookup (domains dt) (normalize h)")
       (auto simp: ForceNotifyDomain_def updateDailyHits_def save_def Let_def)
next
  case (OpClearOld maxAge)
  then show ?thesis
    by (cases "fmlookup (domains dt) k")
       (auto simp: ClearOldEntries_def save_def Let_def)
qed

lemma addRiskLabel_labels:
  "prefix (riskLabels e) (riskLabels (addRiskLabel l e))"
  "distinct (riskLabels e) \<Longrightarrow> distinct (riskLabels (addRiskLabel l e))"
  by (simp_all add: addRiskLabel_def)

lemma calculateRisk_labels_closed:
  assumes base: "P (riskLabels e)"
    and step: "\<And>l x. P (riskLabels x) \<Longrightarrow> P (riskLabels (addRiskLabel l x))"
  shows "P (riskLabels (calculateRisk e))"
proof -
  let ?c1 = "IsWildcardDomain (domain e)"
  let ?c2 = "length (statusCodeHistory e) \<ge> 3 \<and> length (remdups (statusCodeHistory e)) \<ge> 3"
  let ?c3 = "hitCount e > 50 \<or> highHitDays e \<ge> 2"
  let ?c4 = "responseSize e > 0 \<and> (responseSize e < 100 \<or> responseSize e > 1000000)"
  show ?thesis
    by (cases ?c1; cases ?c2; cases ?c3; cases ?c4;
        simp add: calculateRisk_def Let_def addRiskLabel_fields base step)
qed


lemma run_Nil: "run [] dt = dt"
  by (simp add: run_def)

lemma run_Cons: "run (x # xs) dt = run xs (step x dt)"
  by (simp add: run_def)

lemma run_append: "run (xs @ ys) dt = run ys (run xs dt)"
  by (simp add: run_def)

lemma updateDailyHitsEntry_fields:
  "riskLabels (updateDailyHitsEntry now e) = riskLabels e"
  "lastNotified (updateDailyHitsEntry now e) = lastNotified e"
  "lastSeen (updateDailyHitsEntry now e) = lastSeen e"
  "hitCount (updateDailyHitsEntry now e) = hitCount e"
  "firstSeen (updateDailyHitsEntry now e) = firstSeen e"
  by (simp_all add: updateDailyHitsEntry_def Let_def)

lemma updateDailyHitsEntry_blacklisted:
  "blacklisted e \<Longrightarrow> blacklisted (updateDailyHitsEntry now e)"
  by (simp add: updateDailyHitsEntry_def Let_def)

lemma calculateRisk_prefix:
  assumes "prefix xs (riskLabels e)"
  shows "prefix xs (riskLabels (calculateRisk e))"
proof (rule calculateRisk_labels_closed [where P = "prefix xs"])
  show "prefix xs (riskLabels e)" by (rule assms)
next
  fix l and x :: DomainEntry
  assume "prefix xs (riskLabels x)"
  then show "prefix xs (riskLabels (addRiskLabel l x))"
    using addRiskLabel_labels(1) prefix_order.order_trans by blast
qed

lemma calculateRisk_distinct:
  "distinct (riskLabels e) \<Longrightarrow> distinct (riskLabels (calculateRisk e))"
  by (rule calculateRisk_labels_closed [where P = distinct]) (simp_all add: addRiskLabel_labels)

lemma observe_labels: "riskLabels (observe now e) = riskLabels e"
  by (simp add: observe_def updateDailyHitsEntry_fields)

lemma issuerEntry_prefix: "prefix (riskLabels e) (riskLabels (issuerEntry i e))"
  unfolding issuerEntry_def
  by (rule calculateRisk_prefix) (simp add: addRiskLabel_def)

lemma issuerEntry_distinct:
  "distinct (riskLabels e) \<Longrightarrow> distinct (riskLabels (issuerEntry i e))"
  unfolding issuerEntry_def
  by (rule calculateRisk_distinct) (simp add: addRiskLabel_def)

lemma metadataEntry_prefix: "prefix (riskLabels e) (riskLabels (metadataEntry c s l w e))"
  unfolding metadataEntry_def
  by (rule calculateRisk_prefix) simp

lemma metadataEntry_distinct:
  "distinct (riskLabels e) \<Longrightarrow> distinct (riskLabels (metadataEntry c s l w e))"
  unfolding metadataEntry_def
  by (rule calculateRisk_distinct) simp

lemma entryStep_labels:
  assumes "entryStep now op (Some e) = Some e'"
  shows "prefix (riskLabels e) (riskLabels e')"
    and "distinct (riskLabels e) \<Longrightarrow> distinct (riskLabels e')"
  using assms
  by (cases op; auto simp: observe_labels updateDailyHitsEntry_fields issuerEntry_prefix
      issuerEntry_distinct metadataEntry_prefix metadataEntry_distinct split: if_splits)+

lemma entryStep_new_labels:
  assumes "entryStep now op None = Some e'"
  shows "riskLabels e' = []"
  using assms by (cases op) (auto simp: newEntry_def zeroEntry_def)

lemma entryStep_keeps:
  assumes "\<not> isSweep op"
  shows "\<exists>e'. entryStep now op (Some e) = Some e'"
  using assms by (cases op) auto


lemma step_labelsDistinct:
  assumes "labelsDistinct dt"
  shows "labelsDistinct (step (now, op) dt)"
  unfolding labelsDistinct_def
proof (intro allI impI)
  fix k e'
  assume a: "fmlookup (domains (step (now, op) dt)) k = Some e'"
  show "distinct (riskLabels e')"
  proof (cases "isSweep op \<or> opKey op = Some k")
    case False
    with a assms show ?thesis by (simp add: step_lookup labelsDistinct_def)
  next
    case True
    with a have s: "entryStep now op (fmlookup (domains dt) k) = Some e'"
      by (simp add: step_lookup)
    show ?thesis
    proof (cases "fmlookup (domains dt) k")
      case None
      with s show ?thesis using entryStep_new_labels by fastforce
    next
      case (Some e)
      with s assms show ?thesis
        using entryStep_labels(2) [of now op e e'] by (simp add: labelsDistinct_def)
    qed
  qed
qed

lemma run_labelsDistinct:
  "labelsDistinct dt \<Longrightarrow> labelsDistinct (run ops dt)"
proof (induction ops arbitrary: dt)
  case Nil
  then show ?case by (simp add: run_Nil)
next
  case (Cons x xs)
  obtain now op where x: "x = (now, op)" by (cases x)
  from Cons show ?case by (simp add: run_Cons x step_labelsDistinct)
qed

lemma step_labels_prefix:
  assumes "fmlookup (domains dt) k = Some e"
    and "fmlookup (domains (step (now, op) dt)) k = Some e'"
  shows "prefix (riskLabels e) (riskLabels e')"
  using assms entryStep_labels(1) [of now op e e']
  by (auto simp: step_lookup split: if_splits)

lemma step_keeps:
  assumes "fmlookup (domains dt) k = Some e" and "\<not> isSweep op"
  shows "\<exists>e'. fmlookup (domains (step (now, op) dt)) k = Some e'"
  using assms entryStep_keeps [of op now e] by (auto simp: step_lookup)

lemma run_labels_prefix:
  assumes "fmlookup (domains dt) k = Some e" and "noSweep ops"
  shows "\<exists>e'. fmlookup (domains (run ops dt)) k = Some e'
           \<and> prefix (riskLabels e) (riskLabels e')"
  using assms
proof (induction ops arbitrary: dt e)
  case Nil
  then show ?case by (simp add: run_Nil)
next
  case (Cons x xs)
  obtain now op where x: "x = (now, op)" by (cases x)
  from Cons.prems x obtain e1 where e1: "fmlookup (domains (step x dt)) k = Some e1"
    using step_keeps [of dt k e op now] by (auto simp: noSweep_def)
  have p1: "prefix (riskLabels e) (riskLabels e1)"
    using step_labels_prefix Cons.prems(1) e1 x by blast
  from Cons.prems(2) have "noSweep xs" by (simp add: noSweep_def)
  from Cons.IH [OF e1 this] obtain e' where
    "fmlookup (domains (run xs (step x dt))) k = Some e'" "prefix (riskLabels e1) (riskLabels e')"
    by auto
  with p1 show ?case
    using prefix_order.order_trans by (auto simp: run_Cons)
qed


lemma dateOf_same_close:
  assumes "dateOf a = dateOf b" and "a \<le> b"
  shows "b - a < day"
proof -
  have d: "0 < day" by (simp add: day_def hour_def)
  have "b = day * (b div day) + b mod day" "a = day * (a div day) + a mod day" by simp_all
  moreover have "b mod day < day" "0 \<le> a mod day" using d by simp_all
  ultimately show ?thesis using assms(1) unfolding dateOf_def
    by (metis add.commute add_diff_cancel_left' diff_add_cancel diff_strict_right_mono
        add_less_cancel_left add_increasing2 linorder_not_less)
qed

lemma normalize_example: "normalize ''a.example.com'' = ''a.example.com''"
  by (simp add: normalize_def ToLower_def TrimSuffixDot_def toLowerChar_def Let_def)

section \<open>Risk labels\<close>

text \<open>
  C10. The risk labels of an entry never hold a label twice, and they only grow: whatever
  call is made on the tracker, an entry that is still in the table afterwards has its old
  labels as a prefix of its new ones, so a label once added stays even when the condition that
  added it no longer holds; only the score is derived anew from the current fields. Every
  table reached from an empty tracker has duplicate-free labels.
\<close>

theorem C10_risk_labels:
  "(labelsDistinct dt \<longrightarrow> labelsDistinct (run ops dt))
   \<and> labelsDistinct (run ops (InitDomainTracker None))
   \<and> (fmlookup (domains dt) k = Some e \<and> fmlookup (domains (step (now, op) dt)) k = Some e'
        \<longrightarrow> prefix (riskLabels e) (riskLabels e'))
   \<and> (fmlookup (domains dt) k = Some e \<and> noSweep ops
        \<longrightarrow> (\<exists>e'. fmlookup (domains (run ops dt)) k = Some e'
                 \<and> prefix (riskLabels e) (riskLabels e')))
   \<and> prefix (riskLabels e) (riskLabels (calculateRisk e))
   \<and> prefix (riskLabels e) (riskLabels (addRiskLabel l e))
   \<and> (distinct (riskLabels e) \<longrightarrow> distinct (riskLabels (addRiskLabel l e)))
   \<and> riskScore (calculateRisk e) =
       specRiskScore (domain e) (statusCodeHistory e) (hitCount e) (highHitDays e)
         (previousIssuer e) (responseSize e)"
proof -
  have "labelsDistinct (InitDomainTracker None)"
    by (simp add: labelsDistinct_def InitDomainTracker_def)
  then have "labelsDistinct (run ops (InitDomainTracker None))"
    by (rule run_labelsDistinct)
  then show ?thesis
    using run_labelsDistinct [of dt ops] step_labels_prefix [of dt k e now op e']
      run_labels_prefix [of dt k e ops] calculateRisk_prefix [of "riskLabels e" e]
      addRiskLabel_labels [of e l] calculateRisk_score [of e]
    by simp
qed

theorem C10_risk_labels_witness:
  "fmlookup (domains \<lparr>domains = fmupd ''a.example.com''
        (zeroEntry\<lparr>domain := ''a.example.com'', riskLabels := [''status-anomaly''],
           statusCodeHistory := [200, 200, 200]\<rparr>) fmempty, disk = fmempty\<rparr>) ''a.example.com''
     = Some (zeroEntry\<lparr>domain := ''a.example.com'', riskLabels := [''status-anomaly''],
           statusCodeHistory := [200, 200, 200]\<rparr>)
   \<and> noSweep [(5, OpMetadata ''a.example.com'' 200 1000 10 50)]
   \<and> (\<exists>e'. fmlookup (domains (run [(5, OpMetadata ''a.example.com'' 200 1000 10 50)]
          \<lparr>domains = fmupd ''a.example.com''
            (zeroEntry\<lparr>domain := ''a.example.com'', riskLabels := [''status-anomaly''],
               statusCodeHistory := [200, 200, 200]\<rparr>) fmempty, disk = fmempty\<rparr>))
          ''a.example.com'' = Some e'
        \<and> prefix [''status-anomaly''] (riskLabels e'))
   \<and> riskScore (calculateRisk (zeroEntry\<lparr>domain := ''a.example.com'',
          riskLabels := [''status-anomaly''], statusCodeHistory := [200, 200, 200, 200]\<rparr>)) = 0"
  using C10_risk_labels [of
      "\<lparr>domains = fmupd ''a.example.com''
        (zeroEntry\<lparr>domain := ''a.example.com'', riskLabels := [''status-anomaly''],
           statusCodeHistory := [200, 200, 200]\<rparr>) fmempty, disk = fmempty\<rparr>"
      "[(5, OpMetadata ''a.example.com'' 200 1000 10 50)]"
      "''a.example.com''"
      "zeroEntry\<lparr>domain := ''a.example.com'', riskLabels := [''status-anomaly''],
           statusCodeHistory := [200, 200, 200]\<rparr>"]
    C10_risk_labels [of _ _ _ "zeroEntry\<lparr>domain := ''a.example.com'',
          riskLabels := [''status-anomaly''], statusCodeHistory := [200, 200, 200, 200]\<rparr>"]
  by (simp add: noSweep_def specRiskScore_def zeroEntry_def)

section \<open>Blacklisted entries\<close>

lemma observe_fields:
  "firstSeen (observe now e) = firstSeen e"
  "hitCount (observe now e) = hitCount e + 1"
  "lastSeen (observe now e) = now"
  "lastNotified (observe now e) =
     (if \<not> blacklisted e \<and> sevenDays \<le> now - lastNotified e
         \<and> dateOf now \<noteq> dateOf (lastNotified e) then now else lastNotified e)"
  by (simp_all add: observe_def updateDailyHitsEntry_fields)

lemma observe_blacklisted: "blacklisted e \<Longrightarrow> blacklisted (observe now e)"
  by (simp add: observe_def)

lemma issuerEntry_fields:
  "blacklisted (issuerEntry i e) = blacklisted e"
  "lastNotified (issuerEntry i e) = lastNotified e"
  "lastSeen (issuerEntry i e) = lastSeen e"
  "hitCount (issuerEntry i e) = hitCount e"
  "dailyHits (issuerEntry i e) = dailyHits e"
  by (simp_all add: issuerEntry_def calculateRisk_fields addRiskLabel_fields)

lemma metadataEntry_fields:
  "blacklisted (metadataEntry c s l w e) = blacklisted e"
  "lastNotified (metadataEntry c s l w e) = lastNotified e"
  "lastSeen (metadataEntry c s l w e) = lastSeen e"
  "hitCount (metadataEntry c s l w e) = hitCount e"
  "dailyHits (metadataEntry c s l w e) = dailyHits e"
  by (simp_all add: metadataEntry_def calculateRisk_fields)

lemma entryStep_blacklisted:
  assumes "entryStep now op (Some e) = Some e'" and "blacklisted e"
  shows "blacklisted e'"
  using assms
  by (cases op)
     (auto simp: observe_blacklisted issuerEntry_fields metadataEntry_fields
        updateDailyHitsEntry_blacklisted split: if_splits)

lemma step_blacklisted:
  assumes "fmlookup (domains dt) k = Some e" and "blacklisted e"
    and "fmlookup (domains (step (now, op) dt)) k = Some e'"
  shows "blacklisted e'"
  using assms entryStep_blacklisted [of now op e e']
  by (auto simp: step_lookup split: if_splits)

lemma run_blacklisted:
  assumes "fmlookup (domains dt) k = Some e" and "blacklisted e" and "noSweep ops"
  shows "\<exists>e'. fmlookup (domains (run ops dt)) k = Some e' \<and> blacklisted e'"
  using assms
proof (induction ops arbitrary: dt e)
  case Nil
  then show ?case by (simp add: run_Nil)
next
  case (Cons x xs)
  obtain now op where x: "x = (now, op)" by (cases x)
  from Cons.prems x obtain e1 where e1: "fmlookup (domains (step x dt)) k = Some e1"
    using step_keeps [of dt k e op now] by (auto simp: noSweep_def)
  have b1: "blacklisted e1"
    using step_blacklisted Cons.prems(1,2) e1 x by blast
  from Cons.prems(3) have "noSweep xs" by (simp add: noSweep_def)
  from Cons.IH [OF e1 b1 this] show ?case by (simp add: run_Cons)
qed

lemma ShouldNotifyDomain_fst:
  "fst (ShouldNotifyDomain now h dt) =
     (case fmlookup (domains dt) (normalize h) of
        None \<Rightarrow> True
      | Some e \<Rightarrow> \<not> blacklisted e \<and> sevenDays \<le> now - lastNotified e
                  \<and> dateOf now \<noteq> dateOf (lastNotified e))"
  by (simp add: ShouldNotifyDomain_def Let_def split: option.splits)

lemma ShouldNotifyDomain_blacklisted:
  assumes "fmlookup (domains dt) (normalize h) = Some e" and "blacklisted e"
  shows "ShouldNotifyDomain now h dt =
     (False, dt\<lparr>domains := fmupd (normalize h)
        (e\<lparr>hitCount := hitCount e + 1, lastSeen := now\<rparr>) (domains dt)\<rparr>)"
  using assms by (simp add: ShouldNotifyDomain_def Let_def)

lemma ClearOldEntries_lookup:
  "fmlookup (domains (snd (ClearOldEntries t maxAge dt))) k =
     (case fmlookup (domains dt) k of
        None \<Rightarrow> None
      | Some e \<Rightarrow> if t - lastSeen e > maxAge then None else Some e)"
  using step_lookup [of t "OpClearOld maxAge" dt k]
  by (simp split: option.splits)

text \<open>
  C4, as the code has it. A call of \<open>ShouldNotifyDomain\<close> on a host whose entry is
  blacklisted returns false, adds one to the hit count, sets \<open>lastSeen\<close> and changes
  nothing else (the daily hits stay, nothing is saved). No call on the tracker clears the flag
  of an entry that stays in the table, so in a run without a sweep every later call returns
  false. The sweep \<open>ClearOldEntries\<close> removes the entry once it has not been seen for
  more than \<open>maxAge\<close>; the flag is gone with the entry.
\<close>

theorem C4_blacklisted_stays:
  assumes "fmlookup (domains dt) (normalize h) = Some e" and "blacklisted e"
  shows "ShouldNotifyDomain now h dt =
           (False, dt\<lparr>domains := fmupd (normalize h)
              (e\<lparr>hitCount := hitCount e + 1, lastSeen := now\<rparr>) (domains dt)\<rparr>)
     \<and> (\<forall>e'. fmlookup (domains (step (t, op) dt)) (normalize h) = Some e'
            \<longrightarrow> blacklisted e')
     \<and> (noSweep ops \<longrightarrow>
            (\<exists>e'. fmlookup (domains (run ops dt)) (normalize h) = Some e' \<and> blacklisted e')
            \<and> \<not> fst (ShouldNotifyDomain now h (run ops dt)))
     \<and> fmlookup (domains (snd (ClearOldEntries t maxAge dt))) (normalize h) =
           (if t - lastSeen e > maxAge then None else Some e)"
proof -
  have a: "ShouldNotifyDomain now h dt =
           (False, dt\<lparr>domains := fmupd (normalize h)
              (e\<lparr>hitCount := hitCount e + 1, lastSeen := now\<rparr>) (domains dt)\<rparr>)"
    using assms by (rule ShouldNotifyDomain_blacklisted)
  have b: "\<forall>e'. fmlookup (domains (step (t, op) dt)) (normalize h) = Some e'
            \<longrightarrow> blacklisted e'"
    using step_blacklisted [OF assms] by blast
  have c: "noSweep ops \<longrightarrow>
            (\<exists>e'. fmlookup (domains (run ops dt)) (normalize h) = Some e' \<and> blacklisted e')
            \<and> \<not> fst (ShouldNotifyDomain now h (run ops dt))"
  proof
    assume "noSweep ops"
    from run_blacklisted [OF assms this] obtain e' where
      e': "fmlookup (domains (run ops dt)) (normalize h) = Some e'" "blacklisted e'" by blast
    then show "(\<exists>e'. fmlookup (domains (run ops dt)) (normalize h) = Some e' \<and> blacklisted e')
            \<and> \<not> fst (ShouldNotifyDomain now h (run ops dt))"
      by (simp add: ShouldNotifyDomain_fst)
  qed
  have d: "fmlookup (domains (snd (ClearOldEntries t maxAge dt))) (normalize h) =
           (if t - lastSeen e > maxAge then None else Some e)"
    using assms(1) by (simp add: ClearOldEntries_lookup)
  from a b c d show ?thesis by blast
qed

lemma normalize_noisy: "normalize ''noisy.example.com'' = ''noisy.example.com''"
  by (simp add: normalize_def ToLower_def TrimSuffixDot_def toLowerChar_def Let_def)

text \<open>
  The claim as stated (every later call for that host returns false) fails once the sweep has
  removed the entry: a blacklisted host last seen at time 0 is swept on day 31 with the
  retention of 30 days that \<open>main.go\<close> uses, and the next sighting is notified.
\<close>

theorem C4_counterexample:
  "fst (ShouldNotifyDomain (31 * day) ''noisy.example.com''
     (run [(31 * day, OpClearOld (30 * day))]
        \<lparr>domains = fmupd ''noisy.example.com''
           (zeroEntry\<lparr>domain := ''noisy.example.com'', hitCount := 40, firstSeen := 0,
              lastSeen := 0, lastNotified := 0, blacklisted := True, blacklistedDate := 0\<rparr>)
           fmempty,
         disk = fmempty\<rparr>))
   \<and> blacklisted (zeroEntry\<lparr>domain := ''noisy.example.com'', hitCount := 40, firstSeen := 0,
              lastSeen := 0, lastNotified := 0, blacklisted := True, blacklistedDate := 0\<rparr>)"
  by (simp add: ShouldNotifyDomain_fst run_def ClearOldEntries_lookup normalize_noisy
      day_def hour_def)

theorem C4_blacklisted_stays_witness:
  "fmlookup (domains \<lparr>domains = fmupd ''noisy.example.com''
           (zeroEntry\<lparr>domain := ''noisy.example.com'', hitCount := 40, blacklisted := True\<rparr>)
           fmempty, disk = fmempty\<rparr>) (normalize ''noisy.example.com'')
     = Some (zeroEntry\<lparr>domain := ''noisy.example.com'', hitCount := 40, blacklisted := True\<rparr>)
   \<and> blacklisted (zeroEntry\<lparr>domain := ''noisy.example.com'', hitCount := 40,
        blacklisted := True\<rparr>)
   \<and> noSweep [(5, OpShouldNotify ''noisy.example.com''), (6, OpIssuer ''noisy.example.com'' ''R3'')]
   \<and> \<not> fst (ShouldNotifyDomain 7 ''noisy.example.com''
        (run [(5, OpShouldNotify ''noisy.example.com''), (6, OpIssuer ''noisy.example.com'' ''R3'')]
           \<lparr>domains = fmupd ''noisy.example.com''
             (zeroEntry\<lparr>domain := ''noisy.example.com'', hitCount := 40, blacklisted := True\<rparr>)
             fmempty, disk = fmempty\<rparr>))"
  using C4_blacklisted_stays [of
      "\<lparr>domains = fmupd ''noisy.example.com''
           (zeroEntry\<lparr>domain := ''noisy.example.com'', hitCount := 40, blacklisted := True\<rparr>)
           fmempty, disk = fmempty\<rparr>"
      "''noisy.example.com''"
      "zeroEntry\<lparr>domain := ''noisy.example.com'', hitCount := 40, blacklisted := True\<rparr>"
      7 _ _
      "[(5, OpShouldNotify ''noisy.example.com''), (6, OpIssuer ''noisy.example.com'' ''R3'')]"]
  by (simp add: normalize_noisy noSweep_def)

section \<open>First sighting\<close>

lemma ShouldNotifyDomain_lookup:
  "fmlookup (domains (snd (ShouldNotifyDomain now h dt))) k =
     (if normalize h = k then entryStep now (OpShouldNotify h) (fmlookup (domains dt) k)
      else fmlookup (domains dt) k)"
  using step_lookup [of now "OpShouldNotify h" dt k] by simp


lemma newEntry_fields:
  "domain (newEntry now d) = d"
  "hitCount (newEntry now d) = 1"
  "firstSeen (newEntry now d) = now"
  "lastSeen (newEntry now d) = now"
  "lastNotified (newEntry now d) = now"
  "dailyHits (newEntry now d) = [dateOf now \<mapsto> 1]"
  "blacklisted (newEntry now d) = False"
  "riskLabels (newEntry now d) = []"
  by (simp_all add: newEntry_def zeroEntry_def)







section \<open>Cooldown\<close>

lemma sevenDays_day: "day < sevenDays"
  by (simp add: day_def sevenDays_def hour_def)

lemma entryStep_recent:
  assumes "entryStep t op (Some e) = Some e'"
    and "T \<le> lastNotified e" and "T \<le> lastSeen e" and "T \<le> t"
  shows "T \<le> lastNotified e' \<and> T \<le> lastSeen e'"
  using assms
  by (cases op)
     (auto simp: observe_fields issuerEntry_fields metadataEntry_fields
        updateDailyHitsEntry_fields split: if_splits)

lemma entryStep_recent_keeps:
  assumes "T \<le> lastSeen e" and "t \<le> T'" and "T' < T + sevenDays"
    and "keepsFor sevenDays op"
  shows "\<exists>e'. entryStep t op (Some e) = Some e'"
  using assms by (cases op) (auto simp: keepsFor_def)

lemma run_recent:
  assumes "fmlookup (domains dt) k = Some e"
    and "T \<le> lastNotified e" and "T \<le> lastSeen e"
    and "callsBetween T T' ops" and "T' < T + sevenDays"
  shows "\<exists>e'. fmlookup (domains (run ops dt)) k = Some e'
           \<and> T \<le> lastNotified e' \<and> T \<le> lastSeen e'"
  using assms(1,2,3,4)
proof (induction ops arbitrary: dt e)
  case Nil
  then show ?case by (simp add: run_Nil)
next
  case (Cons x xs)
  obtain t op where x: "x = (t, op)" by (cases x)
  from Cons.prems(4) x have tx: "T \<le> t" "t \<le> T'" "keepsFor sevenDays op"
    and rest: "callsBetween T T' xs"
    by (simp_all add: callsBetween_def)
  obtain e0 where e0: "entryStep t op (Some e) = Some e0"
    using entryStep_recent_keeps [OF Cons.prems(3) tx(2) assms(5) tx(3)] by blast
  have r0: "T \<le> lastNotified e0 \<and> T \<le> lastSeen e0"
    using entryStep_recent [OF e0 Cons.prems(2,3) tx(1)] .
  show ?case
  proof (cases "isSweep op \<or> opKey op = Some k")
    case True
    then have "fmlookup (domains (step x dt)) k = Some e0"
      using e0 Cons.prems(1) x by (simp add: step_lookup)
    from Cons.IH [OF this _ _ rest] r0 show ?thesis by (simp add: run_Cons)
  next
    case False
    then have "fmlookup (domains (step x dt)) k = Some e"
      using Cons.prems(1) x by (simp add: step_lookup)
    from Cons.IH [OF this Cons.prems(2,3) rest] show ?thesis by (simp add: run_Cons)
  qed
qed

lemma ShouldNotifyDomain_true_recent:
  assumes "fst (ShouldNotifyDomain T h dt)"
  shows "\<exists>e. fmlookup (domains (snd (ShouldNotifyDomain T h dt))) (normalize h) = Some e
           \<and> lastNotified e = T \<and> lastSeen e = T"
  using assms
  by (cases "fmlookup (domains dt) (normalize h)")
     (auto simp: ShouldNotifyDomain_fst ShouldNotifyDomain_lookup newEntry_fields observe_fields)

lemma cooldown:
  assumes "fst (ShouldNotifyDomain T h dt)" and "callsBetween T T' ops"
    and "T' < T + sevenDays" and "normalize h' = normalize h"
  shows "\<not> fst (ShouldNotifyDomain T' h' (run ops (snd (ShouldNotifyDomain T h dt))))"
proof -
  from ShouldNotifyDomain_true_recent [OF assms(1)] obtain e where
    e: "fmlookup (domains (snd (ShouldNotifyDomain T h dt))) (normalize h) = Some e"
       "lastNotified e = T" "lastSeen e = T" by blast
  from run_recent [OF e(1) _ _ assms(2,3)] e(2,3) obtain e' where
    e': "fmlookup (domains (run ops (snd (ShouldNotifyDomain T h dt)))) (normalize h) = Some e'"
        "T \<le> lastNotified e'" by auto
  then show ?thesis
    using assms(3,4) by (simp add: ShouldNotifyDomain_fst)
qed

lemma ShouldNotifyDomain_existing:
  assumes "fmlookup (domains dt) (normalize h) = Some e" and "\<not> blacklisted e"
  shows "ShouldNotifyDomain now h dt =
     (sevenDays \<le> now - lastNotified e \<and> dateOf now \<noteq> dateOf (lastNotified e),
      save (dt\<lparr>domains := fmupd (normalize h)
        (updateDailyHitsEntry now
           (e\<lparr>hitCount := hitCount e + 1, lastSeen := now,
              lastNotified := (if sevenDays \<le> now - lastNotified e
                                  \<and> dateOf now \<noteq> dateOf (lastNotified e)
                               then now else lastNotified e)\<rparr>))
        (domains dt)\<rparr>))"
  using assms by (simp add: ShouldNotifyDomain_def updateDailyHits_def Let_def)

lemma updateDailyHitsEntry_count:
  "hitsOn (dailyHits (updateDailyHitsEntry now e)) (dateOf now) =
     hitsOn (dailyHits e) (dateOf now) + 1"
  by (simp add: updateDailyHitsEntry_def Let_def hitsOn_def)


text \<open>
  C1. For a host with an entry that is not blacklisted, \<open>ShouldNotifyDomain\<close> returns
  true exactly when at least 7 days have passed since \<open>lastNotified\<close> and today's date
  differs from the date of \<open>lastNotified\<close>. In both cases it adds one to the hit count,
  sets \<open>lastSeen\<close>, counts the hit in the daily hits and saves; \<open>lastNotified\<close> is set
  when the result is true and kept otherwise. Hence, after a call at time \<open>T\<close> that
  returned true, a call for the same key at a later time \<open>T'\<close> returns false when
  \<open>T'\<close> is less than 7 days after \<open>T\<close> or on the same calendar day, whatever calls
  are made on the tracker in between (their clock readings lie between \<open>T\<close> and
  \<open>T'\<close>, and a sweep keeps entries for 7 days or more).
\<close>

theorem C1_cooldown:
  "(fmlookup (domains dt) (normalize h) = Some e \<and> \<not> blacklisted e \<longrightarrow>
      fst (ShouldNotifyDomain now h dt) =
        (sevenDays \<le> now - lastNotified e \<and> dateOf now \<noteq> dateOf (lastNotified e))
      \<and> snd (ShouldNotifyDomain now h dt) =
          save (dt\<lparr>domains := fmupd (normalize h)
            (updateDailyHitsEntry now
               (e\<lparr>hitCount := hitCount e + 1, lastSeen := now,
                  lastNotified := (if fst (ShouldNotifyDomain now h dt)
                                   then now else lastNotified e)\<rparr>))
            (domains dt)\<rparr>)
      \<and> (\<exists>e'. fmlookup (domains (snd (ShouldNotifyDomain now h dt))) (normalize h) = Some e'
            \<and> hitCount e' = hitCount e + 1 \<and> lastSeen e' = now
            \<and> lastNotified e' =
                (if fst (ShouldNotifyDomain now h dt) then now else lastNotified e)
            \<and> hitsOn (dailyHits e') (dateOf now) = hitsOn (dailyHits e) (dateOf now) + 1))
   \<and> (fst (ShouldNotifyDomain T h dt) \<and> callsBetween T T' ops \<and> T \<le> T'
        \<and> (T' < T + sevenDays \<or> dateOf T' = dateOf T) \<and> normalize h' = normalize h
      \<longrightarrow> \<not> fst (ShouldNotifyDomain T' h' (run ops (snd (ShouldNotifyDomain T h dt)))))"
proof (intro conjI impI)
  assume a: "fmlookup (domains dt) (normalize h) = Some e \<and> \<not> blacklisted e"
  then have ex: "ShouldNotifyDomain now h dt =
     (sevenDays \<le> now - lastNotified e \<and> dateOf now \<noteq> dateOf (lastNotified e),
      save (dt\<lparr>domains := fmupd (normalize h)
        (updateDailyHitsEntry now
           (e\<lparr>hitCount := hitCount e + 1, lastSeen := now,
              lastNotified := (if sevenDays \<le> now - lastNotified e
                                  \<and> dateOf now \<noteq> dateOf (lastNotified e)
                               then now else lastNotified e)\<rparr>))
        (domains dt)\<rparr>))"
    using ShouldNotifyDomain_existing by blast
  show "fst (ShouldNotifyDomain now h dt) =
        (sevenDays \<le> now - lastNotified e \<and> dateOf now \<noteq> dateOf (lastNotified e))"
    by (simp add: ex)
  show "snd (ShouldNotifyDomain now h dt) =
          save (dt\<lparr>domains := fmupd (normalize h)
            (updateDailyHitsEntry now
               (e\<lparr>hitCount := hitCount e + 1, lastSeen := now,
                  lastNotified := (if fst (ShouldNotifyDomain now h dt)
                                   then now else lastNotified e)\<rparr>))
            (domains dt)\<rparr>)"
    by (simp add: ex)
  show "\<exists>e'. fmlookup (domains (snd (ShouldNotifyDomain now h dt))) (normalize h) = Some e'
            \<and> hitCount e' = hitCount e + 1 \<and> lastSeen e' = now
            \<and> lastNotified e' =
                (if fst (ShouldNotifyDomain now h dt) then now else lastNotified e)
            \<and> hitsOn (dailyHits e') (dateOf now) = hitsOn (dailyHits e) (dateOf now) + 1"
    by (simp add: ex save_def updateDailyHitsEntry_fields updateDailyHitsEntry_count)
next
  assume b: "fst (ShouldNotifyDomain T h dt) \<and> callsBetween T T' ops \<and> T \<le> T'
        \<and> (T' < T + sevenDays \<or> dateOf T' = dateOf T) \<and> normalize h' = normalize h"
  then have "T' < T + sevenDays"
    using dateOf_same_close [of T T'] sevenDays_day by auto
  with b show "\<not> fst (ShouldNotifyDomain T' h' (run ops (snd (ShouldNotifyDomain T h dt))))"
    using cooldown by blast
qed

theorem C1_cooldown_witness:
  "fmlookup (domains \<lparr>domains = fmupd ''a.example.com'' (newEntry 0 ''a.example.com'') fmempty,
       disk = fmempty\<rparr>) (normalize ''a.example.com'') = Some (newEntry 0 ''a.example.com'')
   \<and> \<not> blacklisted (newEntry 0 ''a.example.com'')
   \<and> fst (ShouldNotifyDomain (8 * day) ''a.example.com''
        \<lparr>domains = fmupd ''a.example.com'' (newEntry 0 ''a.example.com'') fmempty,
         disk = fmempty\<rparr>)
   \<and> \<not> fst (ShouldNotifyDomain (6 * day) ''a.example.com''
        \<lparr>domains = fmupd ''a.example.com'' (newEntry 0 ''a.example.com'') fmempty,
         disk = fmempty\<rparr>)
   \<and> fst (ShouldNotifyDomain 0 ''a.example.com'' (InitDomainTracker None))
   \<and> callsBetween 0 (3 * day)
        [(day, OpIssuer ''a.example.com'' ''R3''), (2 * day, OpClearOld (30 * day))]
   \<and> \<not> fst (ShouldNotifyDomain (3 * day) ''a.example.com''
        (run [(day, OpIssuer ''a.example.com'' ''R3''), (2 * day, OpClearOld (30 * day))]
           (snd (ShouldNotifyDomain 0 ''a.example.com'' (InitDomainTracker None)))))"
proof -
  let ?dt1 = "\<lparr>domains = fmupd ''a.example.com'' (newEntry 0 ''a.example.com'') fmempty,
       disk = fmempty\<rparr>"
  let ?ops = "[(day, OpIssuer ''a.example.com'' ''R3''), (2 * day, OpClearOld (30 * day))]"
  have l: "fmlookup (domains ?dt1) (normalize ''a.example.com'')
      = Some (newEntry 0 ''a.example.com'')"
    by (simp add: normalize_example)
  have nb: "\<not> blacklisted (newEntry 0 ''a.example.com'')"
    by (simp add: newEntry_fields)
  have f: "fst (ShouldNotifyDomain 0 ''a.example.com'' (InitDomainTracker None))"
    by (simp add: ShouldNotifyDomain_fst InitDomainTracker_def)
  have c: "callsBetween 0 (3 * day) ?ops"
    by (simp add: callsBetween_def keepsFor_def day_def hour_def sevenDays_def)
  have d: "(0::int) \<le> 3 * day \<and> 3 * day < 0 + sevenDays"
    by (simp add: day_def hour_def sevenDays_def)
  have r8: "fst (ShouldNotifyDomain (8 * day) ''a.example.com'' ?dt1)"
    using C1_cooldown [of ?dt1 "''a.example.com''" "newEntry 0 ''a.example.com''" "8 * day"] l nb
    by (simp add: newEntry_fields dateOf_def day_def hour_def sevenDays_def)
  have r6: "\<not> fst (ShouldNotifyDomain (6 * day) ''a.example.com'' ?dt1)"
    using C1_cooldown [of ?dt1 "''a.example.com''" "newEntry 0 ''a.example.com''" "6 * day"] l nb
    by (simp add: newEntry_fields dateOf_def day_def hour_def sevenDays_def)
  have r3: "\<not> fst (ShouldNotifyDomain (3 * day) ''a.example.com''
        (run ?ops (snd (ShouldNotifyDomain 0 ''a.example.com'' (InitDomainTracker None)))))"
    using C1_cooldown [of "InitDomainTracker None" "''a.example.com''" _ _ 0 "3 * day" ?ops
        "''a.example.com''"] f c d
    by blast
  from l nb r8 r6 f c r3 show ?thesis by blast
qed

section \<open>Daily hits and the blacklist\<close>

lemma hitsOn_upd: "hitsOn (m(k \<mapsto> v)) d = (if d = k then v else hitsOn m d)"
  by (simp add: hitsOn_def)

lemma updateDailyHitsEntry_streak:
  "hitsOn (dailyHits (updateDailyHitsEntry now e)) d =
     (if d = dateOf now then hitsOn (dailyHits e) d + 1 else hitsOn (dailyHits e) d)"
  "lastHighHitDate (updateDailyHitsEntry now e) =
     (if hitsOn (dailyHits e) (dateOf now) + 1 > 10 then Some (dateOf now)
      else lastHighHitDate e)"
  "highHitDays (updateDailyHitsEntry now e) =
     (if hitsOn (dailyHits e) (dateOf now) + 1 > 10 \<and> lastHighHitDate e \<noteq> Some (dateOf now)
      then (if lastHighHitDate e = Some (dateOf now - 1) then highHitDays e + 1 else 1)
      else highHitDays e)"
  "blacklisted (updateDailyHitsEntry now e) =
     (blacklisted e
      \<or> (hitsOn (dailyHits e) (dateOf now) + 1 > 10 \<and> lastHighHitDate e \<noteq> Some (dateOf now)
         \<and> (if lastHighHitDate e = Some (dateOf now - 1) then highHitDays e + 1 else 1) \<ge> 3))"
  "blacklistedDate (updateDailyHitsEntry now e) =
     (if hitsOn (dailyHits e) (dateOf now) + 1 > 10 \<and> lastHighHitDate e \<noteq> Some (dateOf now)
         \<and> (if lastHighHitDate e = Some (dateOf now - 1) then highHitDays e + 1 else 1) \<ge> 3
      then now else blacklistedDate e)"
  by (simp_all add: updateDailyHitsEntry_def Let_def hitsOn_upd)

lemma observe_streak:
  assumes "\<not> blacklisted e"
  shows "hitsOn (dailyHits (observe now e)) d =
     (if d = dateOf now then hitsOn (dailyHits e) d + 1 else hitsOn (dailyHits e) d)"
  and "lastHighHitDate (observe now e) =
     (if hitsOn (dailyHits e) (dateOf now) + 1 > 10 then Some (dateOf now)
      else lastHighHitDate e)"
  and "highHitDays (observe now e) =
     (if hitsOn (dailyHits e) (dateOf now) + 1 > 10 \<and> lastHighHitDate e \<noteq> Some (dateOf now)
      then (if lastHighHitDate e = Some (dateOf now - 1) then highHitDays e + 1 else 1)
      else highHitDays e)"
  and "blacklisted (observe now e) =
     (hitsOn (dailyHits e) (dateOf now) + 1 > 10 \<and> lastHighHitDate e \<noteq> Some (dateOf now)
         \<and> (if lastHighHitDate e = Some (dateOf now - 1) then highHitDays e + 1 else 1) \<ge> 3)"
  and "blacklistedDate (observe now e) =
     (if hitsOn (dailyHits e) (dateOf now) + 1 > 10 \<and> lastHighHitDate e \<noteq> Some (dateOf now)
         \<and> (if lastHighHitDate e = Some (dateOf now - 1) then highHitDays e + 1 else 1) \<ge> 3
      then now else blacklistedDate e)"
  using assms by (simp_all add: observe_def updateDailyHitsEntry_streak)

lemma observe_streak_blacklisted:
  assumes "blacklisted e"
  shows "dailyHits (observe now e) = dailyHits e"
    "lastHighHitDate (observe now e) = lastHighHitDate e"
    "highHitDays (observe now e) = highHitDays e"
    "blacklistedDate (observe now e) = blacklistedDate e"
  using assms by (simp_all add: observe_def)

lemma observes_Nil: "observes [] e = e"
  by (simp add: observes_def)

lemma observes_Cons: "observes (t # ts) e = observes ts (observe t e)"
  by (simp add: observes_def)

lemma observes_append: "observes (ts @ us) e = observes us (observes ts e)"
  by (simp add: observes_def)

lemma run_sightings:
  assumes "fmlookup (domains dt) (normalize h) = Some e"
  shows "fmlookup (domains (run (sightings h ts) dt)) (normalize h) = Some (observes ts e)"
  using assms
proof (induction ts arbitrary: dt e)
  case Nil
  then show ?case by (simp add: sightings_def run_Nil observes_Nil)
next
  case (Cons t ts)
  have "fmlookup (domains (step (t, OpShouldNotify h) dt)) (normalize h) = Some (observe t e)"
    using Cons.prems by (simp add: ShouldNotifyDomain_lookup)
  from Cons.IH [OF this] show ?case
    by (simp add: sightings_def run_Cons observes_Cons)
qed

text \<open>Hits of one day that keep the count of that day at 10 or below change no streak field.\<close>

lemma observes_below:
  assumes "\<forall>t \<in> set ts. dateOf t = X" and "\<not> blacklisted e"
    and "hitsOn (dailyHits e) X + int (length ts) \<le> 10"
  shows "\<not> blacklisted (observes ts e)
    \<and> highHitDays (observes ts e) = highHitDays e
    \<and> lastHighHitDate (observes ts e) = lastHighHitDate e
    \<and> blacklistedDate (observes ts e) = blacklistedDate e
    \<and> hitsOn (dailyHits (observes ts e)) X = hitsOn (dailyHits e) X + int (length ts)
    \<and> (\<forall>d. d \<noteq> X \<longrightarrow> hitsOn (dailyHits (observes ts e)) d = hitsOn (dailyHits e) d)"
  using assms
proof (induction ts arbitrary: e)
  case Nil
  then show ?case by (simp add: observes_Nil)
next
  case (Cons t ts)
  have t: "dateOf t = X" using Cons.prems(1) by simp
  have c: "hitsOn (dailyHits e) X + 1 \<le> 10" using Cons.prems(3) by simp
  have s: "\<not> blacklisted (observe t e)" "highHitDays (observe t e) = highHitDays e"
    "lastHighHitDate (observe t e) = lastHighHitDate e"
    "blacklistedDate (observe t e) = blacklistedDate e"
    "hitsOn (dailyHits (observe t e)) X = hitsOn (dailyHits e) X + 1"
    "\<forall>d. d \<noteq> X \<longrightarrow> hitsOn (dailyHits (observe t e)) d = hitsOn (dailyHits e) d"
    using c t by (simp_all add: observe_streak [OF Cons.prems(2)])
  have "\<forall>t \<in> set ts. dateOf t = X" using Cons.prems(1) by simp
  moreover have "hitsOn (dailyHits (observe t e)) X + int (length ts) \<le> 10"
    using s(5) Cons.prems(3) by simp
  ultimately show ?case
    using Cons.IH [of "observe t e"] s by (simp add: observes_Cons)
qed

text \<open>Hits of a day that is already the last high-hit day change no streak field either.\<close>

lemma observe_after:
  assumes "dateOf t = X" and "lastHighHitDate e = Some X"
  shows "blacklisted (observe t e) = blacklisted e
    \<and> highHitDays (observe t e) = highHitDays e
    \<and> lastHighHitDate (observe t e) = Some X
    \<and> blacklistedDate (observe t e) = blacklistedDate e
    \<and> (\<forall>d. d \<noteq> X \<longrightarrow> hitsOn (dailyHits (observe t e)) d = hitsOn (dailyHits e) d)"
proof (cases "blacklisted e")
  case True
  then show ?thesis
    using assms by (simp add: observe_streak_blacklisted observe_blacklisted)
next
  case False
  then show ?thesis
    using assms by (simp add: observe_streak)
qed

lemma observes_after:
  assumes "\<forall>t \<in> set ts. dateOf t = X" and "lastHighHitDate e = Some X"
  shows "blacklisted (observes ts e) = blacklisted e
    \<and> highHitDays (observes ts e) = highHitDays e
    \<and> lastHighHitDate (observes ts e) = Some X
    \<and> blacklistedDate (observes ts e) = blacklistedDate e
    \<and> (\<forall>d. d \<noteq> X \<longrightarrow> hitsOn (dailyHits (observes ts e)) d = hitsOn (dailyHits e) d)"
  using assms
proof (induction ts arbitrary: e)
  case Nil
  then show ?case by (simp add: observes_Nil)
next
  case (Cons t ts)
  have t: "dateOf t = X" using Cons.prems(1) by simp
  note s = observe_after [OF t Cons.prems(2)]
  have "\<forall>t \<in> set ts. dateOf t = X" using Cons.prems(1) by simp
  then show ?case
    using Cons.IH [of "observe t e"] s by (simp add: observes_Cons)
qed

text \<open>
  The hits of a day that bring its count above 10: the day becomes the last high-hit day, and
  the streak grows by one if the day before was the last high-hit day, else it restarts at 1.
\<close>

lemma observes_crossing:
  assumes "\<forall>t \<in> set ts. dateOf t = X" and "\<not> blacklisted e"
    and "hitsOn (dailyHits e) X \<le> 10"
    and "hitsOn (dailyHits e) X + int (length ts) > 10"
    and "lastHighHitDate e \<noteq> Some X"
  shows "lastHighHitDate (observes ts e) = Some X
    \<and> highHitDays (observes ts e) =
        (if lastHighHitDate e = Some (X - 1) then highHitDays e + 1 else 1)
    \<and> blacklisted (observes ts e) =
        ((if lastHighHitDate e = Some (X - 1) then highHitDays e + 1 else 1) \<ge> 3)
    \<and> (\<forall>d. d \<noteq> X \<longrightarrow> hitsOn (dailyHits (observes ts e)) d = hitsOn (dailyHits e) d)"
  using assms
proof (induction ts arbitrary: e)
  case Nil
  then show ?case by simp
next
  case (Cons t ts)
  have t: "dateOf t = X" using Cons.prems(1) by simp
  have rest: "\<forall>t \<in> set ts. dateOf t = X" using Cons.prems(1) by simp
  show ?case
  proof (cases "hitsOn (dailyHits e) X = 10")
    case True
    have s: "lastHighHitDate (observe t e) = Some X"
      "highHitDays (observe t e) =
         (if lastHighHitDate e = Some (X - 1) then highHitDays e + 1 else 1)"
      "blacklisted (observe t e) =
         ((if lastHighHitDate e = Some (X - 1) then highHitDays e + 1 else 1) \<ge> 3)"
      "\<forall>d. d \<noteq> X \<longrightarrow> hitsOn (dailyHits (observe t e)) d = hitsOn (dailyHits e) d"
      using True t Cons.prems(5) by (simp_all add: observe_streak [OF Cons.prems(2)])
    from observes_after [OF rest s(1)] s show ?thesis
      by (simp add: observes_Cons)
  next
    case False
    then have c: "hitsOn (dailyHits e) X + 1 \<le> 10" using Cons.prems(3) by simp
    have s: "\<not> blacklisted (observe t e)" "highHitDays (observe t e) = highHitDays e"
      "lastHighHitDate (observe t e) = lastHighHitDate e"
      "hitsOn (dailyHits (observe t e)) X = hitsOn (dailyHits e) X + 1"
      "\<forall>d. d \<noteq> X \<longrightarrow> hitsOn (dailyHits (observe t e)) d = hitsOn (dailyHits e) d"
      using c t by (simp_all add: observe_streak [OF Cons.prems(2)])
    have "hitsOn (dailyHits (observe t e)) X \<le> 10"
      "hitsOn (dailyHits (observe t e)) X + int (length ts) > 10"
      "lastHighHitDate (observe t e) \<noteq> Some X"
      using s c Cons.prems(4,5) by simp_all
    from Cons.IH [OF rest s(1) this] s show ?thesis
      by (simp add: observes_Cons)
  qed
qed

text \<open>
  C3. \<open>updateDailyHits\<close> counts the hit of today; when that count is above 10 and today is
  not yet the last high-hit day, the streak \<open>highHitDays\<close> grows by one if the last high-hit
  day was yesterday and restarts at 1 otherwise, today becomes the last high-hit day, and a
  streak of 3 or more blacklists the entry with \<open>blacklistedDate = now\<close>. A hit that leaves
  today's count at 10 or below changes none of these fields. So for a host that is sighted on
  the days \<open>D\<close>, \<open>D+1\<close>, \<open>D+2\<close>, with more than 10 hits on \<open>D\<close> and on \<open>D+1\<close>, where
  \<open>D\<close> starts the streak: after the first 10 hits of day \<open>D+2\<close> the entry is not
  blacklisted and the streak is 2, and the 11th hit of that day blacklists it, with the time
  of that hit as \<open>blacklistedDate\<close>.
\<close>

theorem C3_blacklist_trigger:
  assumes "fmlookup (domains dt) (normalize h) = Some e0" and "\<not> blacklisted e0"
    and "lastHighHitDate e0 \<noteq> Some (D - 1)" and "lastHighHitDate e0 \<noteq> Some D"
    and "\<forall>t \<in> set A. dateOf t = D" and "\<forall>t \<in> set B. dateOf t = D + 1"
    and "\<forall>t \<in> set C. dateOf t = D + 2" and "dateOf t3 = D + 2"
    and "hitsOn (dailyHits e0) D \<le> 10" and "hitsOn (dailyHits e0) D + int (length A) > 10"
    and "hitsOn (dailyHits e0) (D + 1) \<le> 10"
    and "hitsOn (dailyHits e0) (D + 1) + int (length B) > 10"
    and "hitsOn (dailyHits e0) (D + 2) + int (length C) = 10"
  shows "(\<exists>e1. fmlookup (domains (run (sightings h A) dt)) (normalize h) = Some e1
            \<and> \<not> blacklisted e1 \<and> highHitDays e1 = 1 \<and> lastHighHitDate e1 = Some D)
     \<and> (\<exists>e2. fmlookup (domains (run (sightings h (A @ B @ C)) dt)) (normalize h) = Some e2
            \<and> \<not> blacklisted e2 \<and> highHitDays e2 = 2 \<and> lastHighHitDate e2 = Some (D + 1)
            \<and> hitsOn (dailyHits e2) (D + 2) = 10)
     \<and> (\<exists>e3. fmlookup (domains (run (sightings h (A @ B @ C @ [t3])) dt)) (normalize h)
                = Some e3
            \<and> blacklisted e3 \<and> blacklistedDate e3 = t3 \<and> highHitDays e3 = 3
            \<and> lastHighHitDate e3 = Some (D + 2) \<and> hitsOn (dailyHits e3) (D + 2) = 11)
     \<and> highHitDays (updateDailyHitsEntry now e) =
          (if hitsOn (dailyHits e) (dateOf now) + 1 > 10
              \<and> lastHighHitDate e \<noteq> Some (dateOf now)
           then (if lastHighHitDate e = Some (dateOf now - 1) then highHitDays e + 1 else 1)
           else highHitDays e)
     \<and> lastHighHitDate (updateDailyHitsEntry now e) =
          (if hitsOn (dailyHits e) (dateOf now) + 1 > 10 then Some (dateOf now)
           else lastHighHitDate e)
     \<and> blacklisted (updateDailyHitsEntry now e) =
          (blacklisted e
           \<or> (hitsOn (dailyHits e) (dateOf now) + 1 > 10
               \<and> lastHighHitDate e \<noteq> Some (dateOf now)
               \<and> highHitDays (updateDailyHitsEntry now e) \<ge> 3))
     \<and> hitsOn (dailyHits (updateDailyHitsEntry now e)) (dateOf now) =
          hitsOn (dailyHits e) (dateOf now) + 1"
proof -
  let ?eA = "observes A e0"
  let ?eB = "observes B ?eA"
  let ?eC = "observes C ?eB"
  let ?e3 = "observe t3 ?eC"
  have A: "lastHighHitDate ?eA = Some D" "highHitDays ?eA = 1" "\<not> blacklisted ?eA"
    "\<forall>d. d \<noteq> D \<longrightarrow> hitsOn (dailyHits ?eA) d = hitsOn (dailyHits e0) d"
    using observes_crossing [OF assms(5) assms(2) assms(9) assms(10) assms(4)] assms(3)
    by simp_all
  have B0: "hitsOn (dailyHits ?eA) (D + 1) \<le> 10"
    "hitsOn (dailyHits ?eA) (D + 1) + int (length B) > 10"
    "lastHighHitDate ?eA \<noteq> Some (D + 1)"
    using A assms(11,12) by simp_all
  have B: "lastHighHitDate ?eB = Some (D + 1)" "highHitDays ?eB = 2" "\<not> blacklisted ?eB"
    "\<forall>d. d \<noteq> D + 1 \<longrightarrow> hitsOn (dailyHits ?eB) d = hitsOn (dailyHits ?eA) d"
    using observes_crossing [OF assms(6) A(3) B0] A(1,2) by simp_all
  have C0: "hitsOn (dailyHits ?eB) (D + 2) + int (length C) \<le> 10"
    "hitsOn (dailyHits ?eB) (D + 2) = hitsOn (dailyHits e0) (D + 2)"
    using A(4) B(4) assms(13) by simp_all
  have C: "\<not> blacklisted ?eC" "highHitDays ?eC = 2" "lastHighHitDate ?eC = Some (D + 1)"
    "hitsOn (dailyHits ?eC) (D + 2) = 10"
    using observes_below [OF assms(7) B(3) C0(1)] B(1,2) C0(2) assms(13) by simp_all
  have E: "blacklisted ?e3" "blacklistedDate ?e3 = t3" "highHitDays ?e3 = 3"
    "lastHighHitDate ?e3 = Some (D + 2)" "hitsOn (dailyHits ?e3) (D + 2) = 11"
    using C(2,3,4) assms(8) by (simp_all add: observe_streak [OF C(1)])
  have r1: "fmlookup (domains (run (sightings h A) dt)) (normalize h) = Some ?eA"
    using run_sightings [OF assms(1)] .
  have r2: "fmlookup (domains (run (sightings h (A @ B @ C)) dt)) (normalize h) = Some ?eC"
    using run_sightings [OF assms(1), of "A @ B @ C"] by (simp add: observes_append)
  have r3: "fmlookup (domains (run (sightings h (A @ B @ C @ [t3])) dt)) (normalize h)
      = Some ?e3"
    using run_sightings [OF assms(1), of "A @ B @ C @ [t3]"]
    by (simp add: observes_append observes_Cons observes_Nil)
  have step: "highHitDays (updateDailyHitsEntry now e) =
          (if hitsOn (dailyHits e) (dateOf now) + 1 > 10
              \<and> lastHighHitDate e \<noteq> Some (dateOf now)
           then (if lastHighHitDate e = Some (dateOf now - 1) then highHitDays e + 1 else 1)
           else highHitDays e)
     \<and> lastHighHitDate (updateDailyHitsEntry now e) =
          (if hitsOn (dailyHits e) (dateOf now) + 1 > 10 then Some (dateOf now)
           else lastHighHitDate e)
     \<and> blacklisted (updateDailyHitsEntry now e) =
          (blacklisted e
           \<or> (hitsOn (dailyHits e) (dateOf now) + 1 > 10
               \<and> lastHighHitDate e \<noteq> Some (dateOf now)
               \<and> highHitDays (updateDailyHitsEntry now e) \<ge> 3))
     \<and> hitsOn (dailyHits (updateDailyHitsEntry now e)) (dateOf now) =
          hitsOn (dailyHits e) (dateOf now) + 1"
    by (auto simp: updateDailyHitsEntry_streak)
  from r1 r2 r3 A C E step show ?thesis by simp
qed

theorem C3_blacklist_trigger_witness:
  "fmlookup (domains \<lparr>domains = fmupd ''a.example.com'' (newEntry 0 ''a.example.com'') fmempty,
       disk = fmempty\<rparr>) (normalize ''a.example.com'') = Some (newEntry 0 ''a.example.com'')
   \<and> hitsOn (dailyHits (newEntry 0 ''a.example.com'')) 0 + int (length (replicate 10 (1::int)))
       > 10
   \<and> (\<exists>e2. fmlookup (domains (run (sightings ''a.example.com''
          (replicate 10 1 @ replicate 11 day @ replicate 10 (2 * day)))
          \<lparr>domains = fmupd ''a.example.com'' (newEntry 0 ''a.example.com'') fmempty,
            disk = fmempty\<rparr>)) (normalize ''a.example.com'') = Some e2
        \<and> \<not> blacklisted e2 \<and> highHitDays e2 = 2)
   \<and> (\<exists>e3. fmlookup (domains (run (sightings ''a.example.com''
          (replicate 10 1 @ replicate 11 day @ replicate 10 (2 * day) @ [2 * day + 5]))
          \<lparr>domains = fmupd ''a.example.com'' (newEntry 0 ''a.example.com'') fmempty,
            disk = fmempty\<rparr>)) (normalize ''a.example.com'') = Some e3
        \<and> blacklisted e3 \<and> blacklistedDate e3 = 2 * day + 5 \<and> highHitDays e3 = 3)"
proof -
  let ?dt = "\<lparr>domains = fmupd ''a.example.com'' (newEntry 0 ''a.example.com'') fmempty,
       disk = fmempty\<rparr>"
  let ?e0 = "newEntry 0 ''a.example.com''"
  have d: "dateOf 0 = 0" "dateOf 1 = 0" "dateOf day = 1" "dateOf (2 * day) = 2"
    "dateOf (2 * day + 5) = 2"
    by (simp_all add: dateOf_def day_def hour_def)
  have l: "fmlookup (domains ?dt) (normalize ''a.example.com'') = Some ?e0"
    by (simp add: normalize_example)
  have z: "\<not> blacklisted ?e0" "lastHighHitDate ?e0 \<noteq> Some (0 - 1)"
    "lastHighHitDate ?e0 \<noteq> Some 0"
    by (simp_all add: newEntry_def zeroEntry_def)
  have h: "hitsOn (dailyHits ?e0) 0 \<le> 10"
    "hitsOn (dailyHits ?e0) 0 + int (length (replicate 10 (1::int))) > 10"
    "hitsOn (dailyHits ?e0) (0 + 1) \<le> 10"
    "hitsOn (dailyHits ?e0) (0 + 1) + int (length (replicate 11 day)) > 10"
    "hitsOn (dailyHits ?e0) (0 + 2) + int (length (replicate 10 (2 * day))) = 10"
    by (simp_all add: newEntry_fields hitsOn_def d)
  have s: "\<forall>t \<in> set (replicate 10 (1::int)). dateOf t = 0"
    "\<forall>t \<in> set (replicate 11 day). dateOf t = 0 + 1"
    "\<forall>t \<in> set (replicate 10 (2 * day)). dateOf t = 0 + 2"
    "dateOf (2 * day + 5) = 0 + 2"
    by (simp_all add: d)
  note t = C3_blacklist_trigger [OF l z s h, where now = 0 and e = ?e0]
  from t have e2: "\<exists>e2. fmlookup (domains (run (sightings ''a.example.com''
          (replicate 10 1 @ replicate 11 day @ replicate 10 (2 * day))) ?dt))
          (normalize ''a.example.com'') = Some e2
        \<and> \<not> blacklisted e2 \<and> highHitDays e2 = 2"
    by blast
  from t have e3: "\<exists>e3. fmlookup (domains (run (sightings ''a.example.com''
          (replicate 10 1 @ replicate 11 day @ replicate 10 (2 * day) @ [2 * day + 5])) ?dt))
          (normalize ''a.example.com'') = Some e3
        \<and> blacklisted e3 \<and> blacklistedDate e3 = 2 * day + 5 \<and> highHitDays e3 = 3"
    by blast
  from l h(2) e2 e3 show ?thesis by blast
qed

section \<open>Persistence\<close>

lemma save_persisted: "disk (save dt) = domains (save dt)"
  by (simp add: save_def)

text \<open>
  The calls that end with \<open>dt.save()\<close> leave the file equal to the table: the resolution,
  issuer and metadata records on a known host, the forced notification, and
  \<open>ShouldNotifyDomain\<close> on an entry that is not blacklisted.
\<close>

lemma saving_calls_persist:
  "disk (RecordDomainResolution now h r dt) = domains (RecordDomainResolution now h r dt)"
  "disk (ForceNotifyDomain now h dt) = domains (ForceNotifyDomain now h dt)"
  "fmlookup (domains dt) (normalize h) \<noteq> None \<Longrightarrow>
     disk (RecordDomainIssuer h i dt) = domains (RecordDomainIssuer h i dt)"
  "fmlookup (domains dt) (normalize h) \<noteq> None \<Longrightarrow>
     disk (RecordDomainMetadata h c s l w dt) = domains (RecordDomainMetadata h c s l w dt)"
  "fmlookup (domains dt) (normalize h) = Some e \<Longrightarrow> \<not> blacklisted e \<Longrightarrow>
     disk (snd (ShouldNotifyDomain now h dt)) = domains (snd (ShouldNotifyDomain now h dt))"
  by (auto simp: RecordDomainResolution_def ForceNotifyDomain_def RecordDomainIssuer_def
      RecordDomainMetadata_def ShouldNotifyDomain_def updateDailyHits_def save_def Let_def
      split: option.splits)

text \<open>
  C5 fails on the code. The new-domain branch of \<open>ShouldNotifyDomain\<close> returns without
  \<open>dt.save()\<close>: on an empty tracker the call stores the entry in memory and leaves the
  file as it was, so the file does not hold the entry. \<open>ForceNotifyDomain\<close> creates the
  same entry and saves it.
\<close>

theorem C5_new_domain_not_saved:
  "fmlookup (domains (snd (ShouldNotifyDomain 1000 ''a.example.com'' (InitDomainTracker None))))
      ''a.example.com'' = Some (newEntry 1000 ''a.example.com'')
   \<and> fmlookup (disk (snd (ShouldNotifyDomain 1000 ''a.example.com'' (InitDomainTracker None))))
      ''a.example.com'' = None
   \<and> fmlookup (disk (ForceNotifyDomain 1000 ''a.example.com'' (InitDomainTracker None)))
      ''a.example.com'' \<noteq> None"
  by (simp add: ShouldNotifyDomain_def ForceNotifyDomain_def InitDomainTracker_def save_def
      normalize_example newEntry_def Let_def)

text \<open>
  The blacklisted branch does not save either: the hit count and \<open>lastSeen\<close> change in
  memory, the file keeps the old entry.
\<close>

lemma blacklisted_branch_not_saved:
  "hitCount (the (fmlookup (domains (snd (ShouldNotifyDomain 1000 ''noisy.example.com''
      \<lparr>domains = fmupd ''noisy.example.com''
           (zeroEntry\<lparr>domain := ''noisy.example.com'', hitCount := 40, blacklisted := True\<rparr>)
           fmempty,
       disk = fmupd ''noisy.example.com''
           (zeroEntry\<lparr>domain := ''noisy.example.com'', hitCount := 40, blacklisted := True\<rparr>)
           fmempty\<rparr>))) ''noisy.example.com'')) = 41
   \<and> hitCount (the (fmlookup (disk (snd (ShouldNotifyDomain 1000 ''noisy.example.com''
      \<lparr>domains = fmupd ''noisy.example.com''
           (zeroEntry\<lparr>domain := ''noisy.example.com'', hitCount := 40, blacklisted := True\<rparr>)
           fmempty,
       disk = fmupd ''noisy.example.com''
           (zeroEntry\<lparr>domain := ''noisy.example.com'', hitCount := 40, blacklisted := True\<rparr>)
           fmempty\<rparr>))) ''noisy.example.com'')) = 40"
  by (simp add: ShouldNotifyDomain_def normalize_noisy Let_def)

section \<open>Batching\<close>

lemma add_below:
  assumes "length (pendingOf n target) + 1 < maxBatchSize"
  shows "pendingOf (add target item n) target = pendingOf n target @ [item]"
    and "spawned (add target item n) = spawned n"
    and "stopped (add target item n) = stopped n"
    and "timers (add target item n) target \<noteq> None"
    and "timers n target \<noteq> None \<Longrightarrow> timers (add target item n) target = timers n target"
  using assms
  by (auto simp: add_def pendingOf_def Let_def split: option.splits)

lemma add_full:
  assumes "length (pendingOf n target) + 1 \<ge> maxBatchSize"
  shows "pending (add target item n) target = None"
    and "timers (add target item n) target = None"
    and "spawned (add target item n) = spawned n @ [(target, pendingOf n target @ [item])]"
    and "stopped (add target item n) =
           (case timers n target of None \<Rightarrow> stopped n | Some timer \<Rightarrow> stopped n @ [timer])"
  using assms
  by (auto simp: add_def pendingOf_def Let_def split: option.splits)

lemma add_other:
  assumes "other \<noteq> target"
  shows "pending (add target item n) other = pending n other"
    and "timers (add target item n) other = timers n other"
  using assms
  by (auto simp: add_def pendingOf_def Let_def split: option.splits)

lemma addAll_below:
  assumes "length (pendingOf n target) + length items < maxBatchSize"
  shows "pendingOf (addAll target items n) target = pendingOf n target @ items
    \<and> spawned (addAll target items n) = spawned n
    \<and> stopped (addAll target items n) = stopped n"
  using assms
proof (induction items arbitrary: n)
  case Nil
  then show ?case by (simp add: addAll_def)
next
  case (Cons x xs)
  have b: "length (pendingOf n target) + 1 < maxBatchSize" using Cons.prems by simp
  have "length (pendingOf (add target x n) target) + length xs < maxBatchSize"
    using Cons.prems by (simp add: add_below(1) [OF b])
  from Cons.IH [OF this] show ?case
    by (simp add: addAll_def add_below [OF b])
qed

lemma addAll_snoc: "addAll target (items @ [x]) n = add target x (addAll target items n)"
  by (simp add: addAll_def)

text \<open>
  C7. When an add brings the pending buffer of a target to the maximum batch size of 25, the
  buffer is detached and handed to a new send task with exactly the buffered items followed
  by the new one, the target has no pending buffer and no timer afterwards, and the timer
  that was armed for it, if any, has been stopped. The state of every other target is
  untouched. In particular 25 adds to a target without pending items start one send with
  those 25 items in the order of the adds. The send is a spawned task: \<open>add\<close> returns
  without running it.
\<close>

theorem C7_size_flush:
  "(length (pendingOf n target) + 1 = maxBatchSize \<longrightarrow>
      maxBatchSize = 25
      \<and> pending (add target item n) target = None
      \<and> pendingOf (add target item n) target = []
      \<and> timers (add target item n) target = None
      \<and> spawned (add target item n) = spawned n @ [(target, pendingOf n target @ [item])]
      \<and> length (pendingOf n target @ [item]) = 25
      \<and> stopped (add target item n) =
          (case timers n target of None \<Rightarrow> stopped n | Some timer \<Rightarrow> stopped n @ [timer])
      \<and> (\<forall>other. other \<noteq> target \<longrightarrow>
            pending (add target item n) other = pending n other
            \<and> timers (add target item n) other = timers n other))
   \<and> (pending n target = None \<and> length items = maxBatchSize \<longrightarrow>
      spawned (addAll target items n) = spawned n @ [(target, items)]
      \<and> pending (addAll target items n) target = None
      \<and> timers (addAll target items n) target = None)
   \<and> (length (pendingOf n target) + 1 < maxBatchSize \<longrightarrow>
      pendingOf (add target item n) target = pendingOf n target @ [item]
      \<and> spawned (add target item n) = spawned n
      \<and> timers (add target item n) target \<noteq> None)"
proof -
  have one: "length (pendingOf n target) + 1 = maxBatchSize \<longrightarrow>
      maxBatchSize = 25
      \<and> pending (add target item n) target = None
      \<and> pendingOf (add target item n) target = []
      \<and> timers (add target item n) target = None
      \<and> spawned (add target item n) = spawned n @ [(target, pendingOf n target @ [item])]
      \<and> length (pendingOf n target @ [item]) = 25
      \<and> stopped (add target item n) =
          (case timers n target of None \<Rightarrow> stopped n | Some timer \<Rightarrow> stopped n @ [timer])
      \<and> (\<forall>other. other \<noteq> target \<longrightarrow>
            pending (add target item n) other = pending n other
            \<and> timers (add target item n) other = timers n other)"
  proof
    assume a: "length (pendingOf n target) + 1 = maxBatchSize"
    then have f: "length (pendingOf n target) + 1 \<ge> maxBatchSize" by simp
    have "pendingOf (add target item n) target = []"
      by (simp add: pendingOf_def add_full(1) [OF f])
    moreover have "length (pendingOf n target @ [item]) = 25"
      using a by (simp add: maxBatchSize_def)
    ultimately show "maxBatchSize = 25
      \<and> pending (add target item n) target = None
      \<and> pendingOf (add target item n) target = []
      \<and> timers (add target item n) target = None
      \<and> spawned (add target item n) = spawned n @ [(target, pendingOf n target @ [item])]
      \<and> length (pendingOf n target @ [item]) = 25
      \<and> stopped (add target item n) =
          (case timers n target of None \<Rightarrow> stopped n | Some timer \<Rightarrow> stopped n @ [timer])
      \<and> (\<forall>other. other \<noteq> target \<longrightarrow>
            pending (add target item n) other = pending n other
            \<and> timers (add target item n) other = timers n other)"
      using add_full [OF f, of item] add_other [of _ target item n]
      by (simp add: maxBatchSize_def)
  qed
  have many: "pending n target = None \<and> length items = maxBatchSize \<longrightarrow>
      spawned (addAll target items n) = spawned n @ [(target, items)]
      \<and> pending (addAll target items n) target = None
      \<and> timers (addAll target items n) target = None"
  proof
    assume a: "pending n target = None \<and> length items = maxBatchSize"
    then obtain xs x where items: "items = xs @ [x]"
      by (cases items rule: rev_cases) (auto simp: maxBatchSize_def)
    let ?m = "addAll target xs n"
    have p0: "pendingOf n target = []" using a by (simp add: pendingOf_def)
    have "length (pendingOf n target) + length xs < maxBatchSize"
      using a items p0 by simp
    from addAll_below [OF this] p0
    have m: "pendingOf ?m target = xs" "spawned ?m = spawned n" by simp_all
    have f: "length (pendingOf ?m target) + 1 \<ge> maxBatchSize"
      using a items m(1) by simp
    show "spawned (addAll target items n) = spawned n @ [(target, items)]
      \<and> pending (addAll target items n) target = None
      \<and> timers (addAll target items n) target = None"
      by (simp add: items addAll_snoc add_full(1,2,3) [OF f] m)
  qed
  have below: "length (pendingOf n target) + 1 < maxBatchSize \<longrightarrow>
      pendingOf (add target item n) target = pendingOf n target @ [item]
      \<and> spawned (add target item n) = spawned n
      \<and> timers (add target item n) target \<noteq> None"
    using add_below(1,2,4) [of n target item] by blast
  from one many below show ?thesis by blast
qed

theorem C7_size_flush_witness:
  "pending \<lparr>pending = Map.empty, timers = Map.empty, nextTimer = 0, stopped = [],
        spawned = []\<rparr> ''acme.com'' = None
   \<and> length (map (\<lambda>i. ''h'' @ [char_of i] @ ''.acme.com'') [0 ..< 25]) = maxBatchSize
   \<and> spawned (addAll ''acme.com'' (map (\<lambda>i. ''h'' @ [char_of i] @ ''.acme.com'') [0 ..< 25])
        \<lparr>pending = Map.empty, timers = Map.empty, nextTimer = 0, stopped = [],
         spawned = []\<rparr>)
       = [(''acme.com'', map (\<lambda>i. ''h'' @ [char_of i] @ ''.acme.com'') [0 ..< 25])]
   \<and> length (pendingOf \<lparr>pending = [''acme.com'' \<mapsto> replicate 24 ''a.acme.com''],
        timers = [''acme.com'' \<mapsto> 7], nextTimer = 8, stopped = [], spawned = []\<rparr>
        ''acme.com'') + 1 = maxBatchSize
   \<and> spawned (add ''acme.com'' ''b.acme.com''
        \<lparr>pending = [''acme.com'' \<mapsto> replicate 24 ''a.acme.com''],
         timers = [''acme.com'' \<mapsto> 7], nextTimer = 8, stopped = [], spawned = []\<rparr>)
       = [(''acme.com'', replicate 24 ''a.acme.com'' @ [''b.acme.com''])]
   \<and> stopped (add ''acme.com'' ''b.acme.com''
        \<lparr>pending = [''acme.com'' \<mapsto> replicate 24 ''a.acme.com''],
         timers = [''acme.com'' \<mapsto> 7], nextTimer = 8, stopped = [], spawned = []\<rparr>) = [7]
   \<and> length (pendingOf \<lparr>pending = Map.empty, timers = Map.empty, nextTimer = 0,
        stopped = [], spawned = []\<rparr> ''acme.com'') + 1 < maxBatchSize
   \<and> pendingOf (add ''acme.com'' ''b.acme.com'' \<lparr>pending = Map.empty, timers = Map.empty,
        nextTimer = 0, stopped = [], spawned = []\<rparr>) ''acme.com'' = [''b.acme.com'']"
proof -
  let ?n0 = "\<lparr>pending = Map.empty, timers = Map.empty, nextTimer = 0, stopped = [],
        spawned = []\<rparr>"
  let ?n1 = "\<lparr>pending = [''acme.com'' \<mapsto> replicate 24 ''a.acme.com''],
        timers = [''acme.com'' \<mapsto> 7], nextTimer = 8, stopped = [], spawned = []\<rparr>"
  let ?items = "map (\<lambda>i. ''h'' @ [char_of i] @ ''.acme.com'') [0 ..< 25]"
  have a1: "pending ?n0 ''acme.com'' = None" by simp
  have a2: "length ?items = maxBatchSize" by (simp add: maxBatchSize_def)
  have a3: "spawned (addAll ''acme.com'' ?items ?n0) = [(''acme.com'', ?items)]"
    using C7_size_flush [of ?n0 "''acme.com''" "''b.acme.com''" ?items] a1 a2 by simp
  have p1: "pendingOf ?n1 ''acme.com'' = replicate 24 ''a.acme.com''"
    by (simp add: pendingOf_def)
  have b1: "length (pendingOf ?n1 ''acme.com'') + 1 = maxBatchSize"
    by (simp only: p1 length_replicate maxBatchSize_def)
  note t = C7_size_flush [of ?n1 "''acme.com''" "''b.acme.com''" "[]"]
  from t b1 have "spawned (add ''acme.com'' ''b.acme.com'' ?n1)
      = spawned ?n1 @ [(''acme.com'', pendingOf ?n1 ''acme.com'' @ [''b.acme.com''])]"
    by blast
  then have b2: "spawned (add ''acme.com'' ''b.acme.com'' ?n1)
      = [(''acme.com'', replicate 24 ''a.acme.com'' @ [''b.acme.com''])]"
    by (simp only: p1) simp
  from t b1 have "stopped (add ''acme.com'' ''b.acme.com'' ?n1)
      = (case timers ?n1 ''acme.com'' of None \<Rightarrow> stopped ?n1
         | Some timer \<Rightarrow> stopped ?n1 @ [timer])"
    by blast
  then have b3: "stopped (add ''acme.com'' ''b.acme.com'' ?n1) = [7]" by simp
  have p0: "pendingOf ?n0 ''acme.com'' = []" by (simp add: pendingOf_def)
  have c1: "length (pendingOf ?n0 ''acme.com'') + 1 < maxBatchSize"
    by (simp add: p0 maxBatchSize_def)
  from C7_size_flush [of ?n0 "''acme.com''" "''b.acme.com''" "[]"] c1
  have "pendingOf (add ''acme.com'' ''b.acme.com'' ?n0) ''acme.com''
      = pendingOf ?n0 ''acme.com'' @ [''b.acme.com'']"
    by blast
  then have c2: "pendingOf (add ''acme.com'' ''b.acme.com'' ?n0) ''acme.com'' = [''b.acme.com'']"
    by (simp add: p0)
  from a1 a2 a3 b1 b2 b3 c1 c2 show ?thesis by blast
qed

section \<open>Delivery and retries\<close>

lemma posts_simps:
  "posts [] = []"
  "posts (Post p # evs) = p # posts evs"
  "posts (Sleep d # evs) = posts evs"
  by (simp_all add: posts_def)

lemma sendDiscordLoop_posts:
  "length (posts (fst (sendDiscordLoop post j a))) \<le> maxRetries - a
   \<and> set (posts (fst (sendDiscordLoop post j a))) \<subseteq> {j}"
proof (induction post j a rule: sendDiscordLoop.induct)
  case (1 post j a)
  note unfold = sendDiscordLoop.simps [of post j a]
  show ?case
  proof (cases "a < maxRetries")
    case False
    then show ?thesis by (auto simp: unfold posts_simps)
  next
    case True
    show ?thesis
    proof (cases "post a")
      case TransportError
      with True show ?thesis by (auto simp: unfold posts_simps)
    next
      case (Status c)
      show ?thesis
      proof (cases "c = 429")
        case False
        with True Status show ?thesis by (auto simp: unfold posts_simps)
      next
        case c: True
        obtain evs out where r: "sendDiscordLoop post j (a + 1) = (evs, out)"
          by (cases "sendDiscordLoop post j (a + 1)")
        from "1.IH" [OF True Status _ c] r
        have ih: "length (posts evs) \<le> maxRetries - (a + 1) \<and> set (posts evs) \<subseteq> {j}"
          using c by simp
        have eq: "sendDiscordLoop post j a
            = (Post j # Sleep (rateLimitWait * (int a + 1)) # evs, out)"
          using True Status c r by (simp add: unfold)
        show ?thesis unfolding eq using ih True by (auto simp: posts_simps)
      qed
    qed
  qed
qed

lemma sendToTelegramLoop_posts:
  "length (posts (fst (sendToTelegramLoop post j a))) \<le> maxRetries - a
   \<and> set (posts (fst (sendToTelegramLoop post j a))) \<subseteq> {j}"
proof (induction post j a rule: sendToTelegramLoop.induct)
  case (1 post j a)
  note unfold = sendToTelegramLoop.simps [of post j a]
  show ?case
  proof (cases "a < maxRetries")
    case False
    then show ?thesis by (auto simp: unfold posts_simps)
  next
    case True
    show ?thesis
    proof (cases "post a")
      case TransportError
      with True show ?thesis by (auto simp: unfold posts_simps)
    next
      case (Status c)
      show ?thesis
      proof (cases "c = 429")
        case False
        with True Status show ?thesis by (auto simp: unfold posts_simps)
      next
        case c: True
        obtain evs out where r: "sendToTelegramLoop post j (a + 1) = (evs, out)"
          by (cases "sendToTelegramLoop post j (a + 1)")
        from "1.IH" [OF True Status _ c] r
        have ih: "length (posts evs) \<le> maxRetries - (a + 1) \<and> set (posts evs) \<subseteq> {j}"
          using c by simp
        have eq: "sendToTelegramLoop post j a
            = (Post j # Sleep (rateLimitWait * (int a + 1)) # evs, out)"
          using True Status c r by (simp add: unfold)
        show ?thesis unfolding eq using ih True by (auto simp: posts_simps)
      qed
    qed
  qed
qed


lemma loops_unfold:
  "a < maxRetries \<Longrightarrow> post a = Status 429 \<Longrightarrow>
     sendDiscordLoop post j a =
       (Post j # Sleep (rateLimitWait * (int a + 1)) # fst (sendDiscordLoop post j (a + 1)),
        snd (sendDiscordLoop post j (a + 1)))"
  "a < maxRetries \<Longrightarrow> post a = Status 429 \<Longrightarrow>
     sendToTelegramLoop post j a =
       (Post j # Sleep (rateLimitWait * (int a + 1)) # fst (sendToTelegramLoop post j (a + 1)),
        snd (sendToTelegramLoop post j (a + 1)))"
  "a < maxRetries \<Longrightarrow> post a = Status c \<Longrightarrow> c \<noteq> 429 \<Longrightarrow> \<not> discordSuccess c \<Longrightarrow>
     sendDiscordLoop post j a = ([Post j], Abandoned)"
  "a < maxRetries \<Longrightarrow> post a = Status c \<Longrightarrow> c \<noteq> 429 \<Longrightarrow> \<not> telegramSuccess c \<Longrightarrow>
     sendToTelegramLoop post j a = ([Post j], Abandoned)"
  "a < maxRetries \<Longrightarrow> post a = TransportError \<Longrightarrow>
     sendDiscordLoop post j a = ([Post j], Abandoned)"
  "a < maxRetries \<Longrightarrow> post a = TransportError \<Longrightarrow>
     sendToTelegramLoop post j a = ([Post j], Abandoned)"
  "a < maxRetries \<Longrightarrow> post a = Status c \<Longrightarrow> discordSuccess c \<Longrightarrow>
     sendDiscordLoop post j a = ([Post j], Delivered)"
  "a < maxRetries \<Longrightarrow> post a = Status c \<Longrightarrow> telegramSuccess c \<Longrightarrow>
     sendToTelegramLoop post j a = ([Post j], Delivered)"
  "sendDiscordLoop post j maxRetries = ([], Exhausted)"
  "sendToTelegramLoop post j maxRetries = ([], Exhausted)"
  by (auto simp: sendDiscordLoop.simps [of post j a] sendToTelegramLoop.simps [of post j a]
      sendDiscordLoop.simps [of post j maxRetries] sendToTelegramLoop.simps [of post j maxRetries]
      discordSuccess_def telegramSuccess_def split: prod.splits)

lemma loops_all_limited:
  assumes "post 0 = Status 429" and "post 1 = Status 429" and "post 2 = Status 429"
  shows "sendDiscordLoop post j 0 =
      ([Post j, Sleep rateLimitWait, Post j, Sleep (2 * rateLimitWait),
        Post j, Sleep (3 * rateLimitWait)], Exhausted)"
    and "sendToTelegramLoop post j 0 =
      ([Post j, Sleep rateLimitWait, Post j, Sleep (2 * rateLimitWait),
        Post j, Sleep (3 * rateLimitWait)], Exhausted)"
proof -
  have m: "maxRetries = 3" by (simp add: maxRetries_def)
  have d3: "sendDiscordLoop post j 3 = ([], Exhausted)"
    using loops_unfold(9) [of post j] by (simp only: m)
  have d2: "sendDiscordLoop post j 2 = ([Post j, Sleep (3 * rateLimitWait)], Exhausted)"
    using loops_unfold(1) [where a = 2 and post = post and j = j] assms(3) d3
    by (simp add: m)
  have d1: "sendDiscordLoop post j 1 =
      ([Post j, Sleep (2 * rateLimitWait), Post j, Sleep (3 * rateLimitWait)], Exhausted)"
    using loops_unfold(1) [where a = 1 and post = post and j = j] assms(2) d2
    by (simp add: m numeral_2_eq_2 [symmetric])
  show "sendDiscordLoop post j 0 =
      ([Post j, Sleep rateLimitWait, Post j, Sleep (2 * rateLimitWait),
        Post j, Sleep (3 * rateLimitWait)], Exhausted)"
    using loops_unfold(1) [where a = 0 and post = post and j = j] assms(1) d1
    by (simp add: m)
  have t3: "sendToTelegramLoop post j 3 = ([], Exhausted)"
    using loops_unfold(10) [of post j] by (simp only: m)
  have t2: "sendToTelegramLoop post j 2 = ([Post j, Sleep (3 * rateLimitWait)], Exhausted)"
    using loops_unfold(2) [where a = 2 and post = post and j = j] assms(3) t3
    by (simp add: m)
  have t1: "sendToTelegramLoop post j 1 =
      ([Post j, Sleep (2 * rateLimitWait), Post j, Sleep (3 * rateLimitWait)], Exhausted)"
    using loops_unfold(2) [where a = 1 and post = post and j = j] assms(2) t2
    by (simp add: m numeral_2_eq_2 [symmetric])
  show "sendToTelegramLoop post j 0 =
      ([Post j, Sleep rateLimitWait, Post j, Sleep (2 * rateLimitWait),
        Post j, Sleep (3 * rateLimitWait)], Exhausted)"
    using loops_unfold(2) [where a = 0 and post = post and j = j] assms(1) t1
    by (simp add: m)
qed

lemma sends_posts:
  "length (posts (fst (sendDiscord marshal post target batch))) \<le> 3"
  "length (posts (fst (sendToTelegram tok chat marshal post target batch))) \<le> 3"
  "\<forall>p \<in> set (posts (fst (sendDiscord marshal post target batch))).
      marshal (target, batch) = Some p"
  "\<forall>p \<in> set (posts (fst (sendToTelegram tok chat marshal post target batch))).
      marshal (target, batch) = Some p"
proof -
  have "length (posts (fst (sendDiscord marshal post target batch))) \<le> 3
    \<and> length (posts (fst (sendToTelegram tok chat marshal post target batch))) \<le> 3
    \<and> (\<forall>p \<in> set (posts (fst (sendDiscord marshal post target batch))).
          marshal (target, batch) = Some p)
    \<and> (\<forall>p \<in> set (posts (fst (sendToTelegram tok chat marshal post target batch))).
          marshal (target, batch) = Some p)"
  proof (cases "marshal (target, batch)")
    case None
    then show ?thesis
      by (simp add: sendDiscord_def sendToTelegram_def posts_simps)
  next
    case (Some x)
    then show ?thesis
      using sendDiscordLoop_posts [of post x 0] sendToTelegramLoop_posts [of post x 0]
      by (auto simp: sendDiscord_def sendToTelegram_def posts_simps maxRetries_def)
  qed
  then show
    "length (posts (fst (sendDiscord marshal post target batch))) \<le> 3"
    "length (posts (fst (sendToTelegram tok chat marshal post target batch))) \<le> 3"
    "\<forall>p \<in> set (posts (fst (sendDiscord marshal post target batch))).
      marshal (target, batch) = Some p"
    "\<forall>p \<in> set (posts (fst (sendToTelegram tok chat marshal post target batch))).
      marshal (target, batch) = Some p"
    by blast+
qed

text \<open>
  C8. A delivery to a sink posts at most 3 times, each time the body marshalled once before
  the loop. Attempt \<open>a\<close> (counted from 0) that gets status 429 is followed by a sleep of
  \<open>rateLimitWait * (a + 1)\<close> and then by attempt \<open>a + 1\<close>; any other status that is not a
  success of the sink ends the delivery at once as abandoned, and so does a transport error;
  a success ends it as delivered. No attempt is made once 3 attempts are used up: three
  rate-limited attempts end, after the third sleep, as exhausted.
\<close>

theorem C8_retry:
  "length (posts (fst (sendDiscord marshal post target batch))) \<le> 3
   \<and> length (posts (fst (sendToTelegram tok chat marshal post target batch))) \<le> 3
   \<and> (\<forall>p \<in> set (posts (fst (sendDiscord marshal post target batch))).
          marshal (target, batch) = Some p)
   \<and> (\<forall>p \<in> set (posts (fst (sendToTelegram tok chat marshal post target batch))).
          marshal (target, batch) = Some p)
   \<and> (a < maxRetries \<and> post a = Status 429 \<longrightarrow>
        sendDiscordLoop post j a =
          (Post j # Sleep (rateLimitWait * (int a + 1)) # fst (sendDiscordLoop post j (a + 1)),
           snd (sendDiscordLoop post j (a + 1)))
        \<and> sendToTelegramLoop post j a =
          (Post j # Sleep (rateLimitWait * (int a + 1)) # fst (sendToTelegramLoop post j (a + 1)),
           snd (sendToTelegramLoop post j (a + 1))))
   \<and> (a < maxRetries \<and> post a = Status c \<and> c \<noteq> 429 \<and> \<not> discordSuccess c \<longrightarrow>
        sendDiscordLoop post j a = ([Post j], Abandoned))
   \<and> (a < maxRetries \<and> post a = Status c \<and> c \<noteq> 429 \<and> \<not> telegramSuccess c \<longrightarrow>
        sendToTelegramLoop post j a = ([Post j], Abandoned))
   \<and> (a < maxRetries \<and> post a = TransportError \<longrightarrow>
        sendDiscordLoop post j a = ([Post j], Abandoned)
        \<and> sendToTelegramLoop post j a = ([Post j], Abandoned))
   \<and> (a < maxRetries \<and> post a = Status c \<and> discordSuccess c \<longrightarrow>
        sendDiscordLoop post j a = ([Post j], Delivered))
   \<and> (a < maxRetries \<and> post a = Status c \<and> telegramSuccess c \<longrightarrow>
        sendToTelegramLoop post j a = ([Post j], Delivered))
   \<and> sendDiscordLoop post j maxRetries = ([], Exhausted)
   \<and> sendToTelegramLoop post j maxRetries = ([], Exhausted)
   \<and> (post 0 = Status 429 \<and> post 1 = Status 429 \<and> post 2 = Status 429 \<longrightarrow>
        sendDiscordLoop post j 0 =
          ([Post j, Sleep rateLimitWait, Post j, Sleep (2 * rateLimitWait),
            Post j, Sleep (3 * rateLimitWait)], Exhausted)
        \<and> sendToTelegramLoop post j 0 =
          ([Post j, Sleep rateLimitWait, Post j, Sleep (2 * rateLimitWait),
            Post j, Sleep (3 * rateLimitWait)], Exhausted))"
proof -
  note u = loops_unfold(1,2,5,6) [where a = a and post = post and j = j]
  note v = loops_unfold(3,4,7,8) [where a = a and post = post and j = j and c = c]
  have p: "length (posts (fst (sendDiscord marshal post target batch))) \<le> 3
   \<and> length (posts (fst (sendToTelegram tok chat marshal post target batch))) \<le> 3
   \<and> (\<forall>p \<in> set (posts (fst (sendDiscord marshal post target batch))).
          marshal (target, batch) = Some p)
   \<and> (\<forall>p \<in> set (posts (fst (sendToTelegram tok chat marshal post target batch))).
          marshal (target, batch) = Some p)"
    using sends_posts(1,3) [where marshal = marshal and post = post and target = target
        and batch = batch]
      sends_posts(2,4) [where marshal = marshal and post = post and target = target
        and batch = batch and tok = tok and chat = chat]
    by blast
  have r: "a < maxRetries \<and> post a = Status 429 \<longrightarrow>
        sendDiscordLoop post j a =
          (Post j # Sleep (rateLimitWait * (int a + 1)) # fst (sendDiscordLoop post j (a + 1)),
           snd (sendDiscordLoop post j (a + 1)))
        \<and> sendToTelegramLoop post j a =
          (Post j # Sleep (rateLimitWait * (int a + 1)) # fst (sendToTelegramLoop post j (a + 1)),
           snd (sendToTelegramLoop post j (a + 1)))"
    using u(1,2) by blast
  have h: "(a < maxRetries \<and> post a = Status c \<and> c \<noteq> 429 \<and> \<not> discordSuccess c \<longrightarrow>
        sendDiscordLoop post j a = ([Post j], Abandoned))
   \<and> (a < maxRetries \<and> post a = Status c \<and> c \<noteq> 429 \<and> \<not> telegramSuccess c \<longrightarrow>
        sendToTelegramLoop post j a = ([Post j], Abandoned))"
    using v(1,2) by blast
  have t: "a < maxRetries \<and> post a = TransportError \<longrightarrow>
        sendDiscordLoop post j a = ([Post j], Abandoned)
        \<and> sendToTelegramLoop post j a = ([Post j], Abandoned)"
    using u(3,4) by blast
  have s: "(a < maxRetries \<and> post a = Status c \<and> discordSuccess c \<longrightarrow>
        sendDiscordLoop post j a = ([Post j], Delivered))
   \<and> (a < maxRetries \<and> post a = Status c \<and> telegramSuccess c \<longrightarrow>
        sendToTelegramLoop post j a = ([Post j], Delivered))"
    using v(3,4) by blast
  have x: "sendDiscordLoop post j maxRetries = ([], Exhausted)
   \<and> sendToTelegramLoop post j maxRetries = ([], Exhausted)"
    using loops_unfold(9,10) [of post j] by blast
  have l: "post 0 = Status 429 \<and> post 1 = Status 429 \<and> post 2 = Status 429 \<longrightarrow>
        sendDiscordLoop post j 0 =
          ([Post j, Sleep rateLimitWait, Post j, Sleep (2 * rateLimitWait),
            Post j, Sleep (3 * rateLimitWait)], Exhausted)
        \<and> sendToTelegramLoop post j 0 =
          ([Post j, Sleep rateLimitWait, Post j, Sleep (2 * rateLimitWait),
            Post j, Sleep (3 * rateLimitWait)], Exhausted)"
    using loops_all_limited [of post j] by blast
  from p r h t s x l show ?thesis by blast
qed

text \<open>
  Scenario E of the specification: 429 on the first two attempts, 200 on the third. The third
  post is delivered, after sleeps of 2 and 4 seconds. A status 500 and a transport error end
  the delivery after one post.
\<close>

theorem C8_retry_witness:
  "sendDiscord Some (\<lambda>k. if k < 2 then Status 429 else Status 200) ''acme.com''
       [''a.acme.com''] =
     ([Post (''acme.com'', [''a.acme.com'']), Sleep 2000000000,
       Post (''acme.com'', [''a.acme.com'']), Sleep 4000000000,
       Post (''acme.com'', [''a.acme.com''])], Delivered)
   \<and> sendDiscord Some (\<lambda>k. Status 500) ''acme.com'' [''a.acme.com''] =
     ([Post (''acme.com'', [''a.acme.com''])], Abandoned)
   \<and> sendToTelegram ''token'' ''chat'' Some (\<lambda>k. TransportError) ''acme.com''
       [''a.acme.com''] =
     ([Post (''acme.com'', [''a.acme.com''])], Abandoned)
   \<and> sendToTelegram ''token'' ''chat'' Some (\<lambda>k. Status 429) ''acme.com'' [''a.acme.com''] =
     ([Post (''acme.com'', [''a.acme.com'']), Sleep 2000000000,
       Post (''acme.com'', [''a.acme.com'']), Sleep 4000000000,
       Post (''acme.com'', [''a.acme.com'']), Sleep 6000000000], Exhausted)"
proof -
  let ?j = "(''acme.com'', [''a.acme.com''])"
  let ?e = "\<lambda>k::nat. if k < 2 then Status 429 else Status 200"
  have m: "(0::nat) < maxRetries" "(1::nat) < maxRetries" "(2::nat) < maxRetries"
    by (simp_all add: maxRetries_def)
  have e2: "sendDiscordLoop ?e ?j 2 = ([Post ?j], Delivered)"
    using C8_retry [of Some ?e "''acme.com''" "[''a.acme.com'']" "''token''" "''chat''" 2 ?j 200] m by (simp add: discordSuccess_def)
  have e1: "sendDiscordLoop ?e ?j 1 = ([Post ?j, Sleep 4000000000, Post ?j], Delivered)"
    using C8_retry [of Some ?e "''acme.com''" "[''a.acme.com'']" "''token''" "''chat''" 1 ?j 200] m e2
    by (simp add: rateLimitWait_def numeral_2_eq_2 [symmetric])
  have e0: "sendDiscordLoop ?e ?j 0 =
      ([Post ?j, Sleep 2000000000, Post ?j, Sleep 4000000000, Post ?j], Delivered)"
    using C8_retry [of Some ?e "''acme.com''" "[''a.acme.com'']" "''token''" "''chat''" 0 ?j 200] m e1 by (simp add: rateLimitWait_def)
  have f: "sendDiscordLoop (\<lambda>k. Status 500) ?j 0 = ([Post ?j], Abandoned)"
    using C8_retry [of Some "\<lambda>k. Status 500" "''acme.com''" "[''a.acme.com'']" "''token''" "''chat''" 0 ?j 500] m
    by (simp add: discordSuccess_def)
  have t: "sendToTelegramLoop (\<lambda>k. TransportError) ?j 0 = ([Post ?j], Abandoned)"
    using C8_retry [of Some "\<lambda>k. TransportError" "''acme.com''" "[''a.acme.com'']" "''token''" "''chat''" 0 ?j 0] m by simp
  have x: "sendToTelegramLoop (\<lambda>k. Status 429) ?j 0 =
      ([Post ?j, Sleep 2000000000, Post ?j, Sleep 4000000000, Post ?j, Sleep 6000000000],
       Exhausted)"
    using C8_retry [of Some "\<lambda>k. Status 429" "''acme.com''" "[''a.acme.com'']" "''token''" "''chat''" 0 ?j 0] by (simp add: rateLimitWait_def)
  from e0 f t x show ?thesis
    by (simp add: sendDiscord_def sendToTelegram_def)
qed

section \<open>Copies handed out by the getters\<close>

lemma GetDomainInfoMem_example:
  "GetDomainInfoMem ''a.example.com'' exampleTable exampleMemory =
     (Some 3, exampleMemory\<lparr>structs := [0 \<mapsto> exampleStruct, 3 \<mapsto> exampleStruct],
                 nextRef := 4\<rparr>)"
  by (simp add: GetDomainInfoMem_def exampleTable_def exampleMemory_def normalize_example)

text \<open>
  The copy is a new struct, so an assignment to one of its scalar fields does not reach the
  tracker's entry.
\<close>

lemma copy_protects_scalars:
  "map_option (\<lambda>m. entryAt m 0)
     (callerSetHitCount 3 99 (snd (GetDomainInfoMem ''a.example.com'' exampleTable exampleMemory)))
   = Some (entryAt exampleMemory 0)"
  unfolding GetDomainInfoMem_example
  by (simp add: callerSetHitCount_def entryAt_def exampleMemory_def exampleStruct_def
      readHitMap_def readStrSlice_def readIntSlice_def)

text \<open>
  C9 fails on the code. The copy shares the map of daily hits and the backing arrays of the
  slices with the tracker's entry: after \<open>info := GetDomainInfo("a.example.com")\<close>, the
  caller's \<open>info.DailyHits[k] = 99\<close> changes the daily hits of the entry inside the
  tracker from 3 to 99, and \<open>info.RiskLabels[0] = "x"\<close> changes its risk labels.
\<close>

theorem C9_shallow_copy:
  "map_option (\<lambda>e. dailyHits e 0) (entryAt exampleMemory 0) = Some (Some 3)
   \<and> map_option (\<lambda>e. riskLabels e) (entryAt exampleMemory 0) = Some [''issuer-change'']
   \<and> fst (GetDomainInfoMem ''a.example.com'' exampleTable exampleMemory) = Some 3
   \<and> map_option (\<lambda>m. map_option (\<lambda>e. dailyHits e 0) (entryAt m 0))
        (callerSetDailyHit 3 0 99
           (snd (GetDomainInfoMem ''a.example.com'' exampleTable exampleMemory)))
       = Some (Some (Some 99))
   \<and> map_option (\<lambda>m. map_option (\<lambda>e. riskLabels e) (entryAt m 0))
        (callerSetRiskLabel 3 0 ''x''
           (snd (GetDomainInfoMem ''a.example.com'' exampleTable exampleMemory)))
       = Some (Some [''x''])"
  unfolding GetDomainInfoMem_example
  by (simp add: callerSetDailyHit_def callerSetRiskLabel_def
      entryAt_def exampleMemory_def exampleStruct_def readHitMap_def readStrSlice_def)

end
